theory Spec2Isabelle
  imports Main
begin

section \<open>Python text primitives used by flow\_log\_parser.py\<close>

text \<open>
  The program reads text files and works on Python \<open>str\<close> values. A character is
  modelled by \<^typ>\<open>char\<close>, read as the code point of the same number (U+0000 to U+00FF),
  and the character classes of \<open>str.isspace\<close>, \<open>str.isdigit\<close>, \<open>str.lower\<close> and
  \<open>int\<close> are the ones CPython has on that range. Integers are unbounded
  (\<^typ>\<open>int\<close>); \<open>int\<close> converts a literal of at most 4300 digits, the limit the
  interpreter has when a program sets none.
\<close>

definition py_isspace :: "char \<Rightarrow> bool" where
  \<comment> \<open>\<open>str.isspace\<close> on one character: TAB, LF, VT, FF, CR, FS, GS, RS, US, SPACE,
      NEL (U+0085) and NBSP (U+00A0).\<close>
  "py_isspace c =
     (let n = (of_char c :: nat)
      in (9 \<le> n \<and> n \<le> 13) \<or> (28 \<le> n \<and> n \<le> 32) \<or> n = 133 \<or> n = 160)"

definition ascii_digit :: "char \<Rightarrow> bool" where
  "ascii_digit c = (let n = (of_char c :: nat) in 48 \<le> n \<and> n \<le> 57)"

definition py_isdigit_char :: "char \<Rightarrow> bool" where
  \<comment> \<open>Characters with the Unicode property Digit or Decimal: \<open>0\<close> to \<open>9\<close> and the
      superscripts U+00B2, U+00B3, U+00B9.\<close>
  "py_isdigit_char c =
     (let n = (of_char c :: nat) in (48 \<le> n \<and> n \<le> 57) \<or> n = 178 \<or> n = 179 \<or> n = 185)"

definition py_isdigit :: "string \<Rightarrow> bool" where
  \<comment> \<open>\<open>s.isdigit()\<close>: at least one character, and every character a digit.\<close>
  "py_isdigit s = (s \<noteq> [] \<and> list_all py_isdigit_char s)"

definition py_strip :: "string \<Rightarrow> string" where
  \<comment> \<open>\<open>s.strip()\<close>: whitespace removed at both ends.\<close>
  "py_strip s = rev (dropWhile py_isspace (rev (dropWhile py_isspace s)))"

fun split_from :: "string \<Rightarrow> string \<Rightarrow> string list" where
  \<comment> \<open>The scan of \<open>s.split()\<close>; the first argument is the word read so far.\<close>
  "split_from w [] = (if w = [] then [] else [w])"
| "split_from w (c # cs) =
     (if py_isspace c then (if w = [] then split_from [] cs else w # split_from [] cs)
      else split_from (w @ [c]) cs)"

definition py_split :: "string \<Rightarrow> string list" where
  \<comment> \<open>\<open>s.split()\<close>: the maximal runs of non-whitespace characters.\<close>
  "py_split s = split_from [] s"

definition py_lower_char :: "char \<Rightarrow> char" where
  \<comment> \<open>\<open>A\<close> to \<open>Z\<close> and U+00C0 to U+00DE (without the multiplication sign U+00D7) have
      their lower-case form 32 code points later.\<close>
  "py_lower_char c =
     (let n = (of_char c :: nat)
      in if (65 \<le> n \<and> n \<le> 90) \<or> (192 \<le> n \<and> n \<le> 222 \<and> n \<noteq> 215) then char_of (n + 32) else c)"

definition py_lower :: "string \<Rightarrow> string" where
  "py_lower s = map py_lower_char s"

definition startswith :: "string \<Rightarrow> string \<Rightarrow> bool" where
  "startswith s p = (take (length p) s = p)"

subsection \<open>\<open>int(s)\<close>\<close>

definition int_space :: "char \<Rightarrow> bool" where
  \<comment> \<open>The whitespace \<open>int\<close> skips at both ends of its argument: the C locale's white
      space, and the non-ASCII spaces, which the conversion first turns into blanks.\<close>
  "int_space c =
     (let n = (of_char c :: nat) in (9 \<le> n \<and> n \<le> 13) \<or> n = 32 \<or> n = 133 \<or> n = 160)"

fun digits_ok :: "bool \<Rightarrow> string \<Rightarrow> bool" where
  \<comment> \<open>Digits with single underscores between them; the flag says that the character
      before was a digit.\<close>
  "digits_ok prev [] = prev"
| "digits_ok prev (c # cs) =
     (if c = CHR ''_'' then prev \<and> digits_ok False cs
      else ascii_digit c \<and> digits_ok True cs)"

definition digit_value :: "char \<Rightarrow> int" where
  "digit_value c = int (of_char c) - 48"

definition decimal_value :: "string \<Rightarrow> int" where
  "decimal_value ds = foldl (\<lambda>n c. 10 * n + digit_value c) 0 (filter (\<lambda>c. c \<noteq> CHR ''_'') ds)"

definition max_str_digits :: nat where
  \<comment> \<open>\<open>sys.int_info.default_max_str_digits\<close> (CPython 3.11, and the later releases of
      3.7 to 3.10): \<open>int\<close> raises \<open>ValueError\<close> on a literal with more digits. The
      program leaves the limit as it is.\<close>
  "max_str_digits = 4300"

definition literal_ok :: "string \<Rightarrow> bool" where
  \<comment> \<open>Digits with single underscores between them, and no more digits than the
      limit; leading zeros count.\<close>
  "literal_ok ds =
     (digits_ok False ds \<and> length (filter (\<lambda>c. c \<noteq> CHR ''_'') ds) \<le> max_str_digits)"

definition py_int :: "string \<Rightarrow> int option" where
  \<comment> \<open>\<open>int(s)\<close> in base 10; \<open>None\<close> stands for the \<open>ValueError\<close> it raises.\<close>
  "py_int s =
     (let t = rev (dropWhile int_space (rev (dropWhile int_space s)))
      in case t of
           [] \<Rightarrow> None
         | c # r \<Rightarrow>
             if c = CHR ''-'' then (if literal_ok r then Some (- decimal_value r) else None)
             else if c = CHR ''+'' then (if literal_ok r then Some (decimal_value r) else None)
             else (if literal_ok t then Some (decimal_value t) else None))"

section \<open>Errors and results\<close>

datatype py_error =
    ValueError string    \<comment> \<open>raised by \<open>int\<close>, with the rejected literal\<close>
  | KeyError string      \<comment> \<open>a dictionary has no such key\<close>
  | AttributeError       \<comment> \<open>a method of \<open>str\<close> called on \<open>None\<close>\<close>
  | IndexError           \<comment> \<open>a list read past its end\<close>
  | StopIteration        \<comment> \<open>\<open>next\<close> on an exhausted reader\<close>
  | CsvError             \<comment> \<open>\<open>csv.Error\<close>, as for a field over the size limit of the module\<close>
  | UnicodeDecodeError   \<comment> \<open>the bytes of the file are no text in its encoding\<close>

text \<open>
  A \<open>csv.reader\<close> (and the reader inside a \<open>csv.DictReader\<close>) is modelled by what it does
  call after call: it yields a row, a list of cells, or it raises while it reads one
  (\<open>csv.Error\<close>, \<open>UnicodeDecodeError\<close>). Both loaders iterate outside any \<open>try\<close>, so
  what the reader raises leaves the loader.
\<close>

type_synonym csv_reader = "(py_error + string list) list"

text \<open>
  The second component of the validator's result. \<open>Msg\<close> carries one of the literal
  messages of the source; \<open>ErrorInValidation e\<close> is the formatted message
  \<^verbatim>\<open>f"Error in flow log validation: {e}"\<close> of the handler, with the exception it
  was built from.
\<close>

datatype reason = Msg string | ErrorInValidation py_error

type_synonym protocol_table = "int \<rightharpoonup> string"
type_synonym lookup_table = "(int \<times> string) \<rightharpoonup> string"
type_synonym tag_counts = "string \<rightharpoonup> int"
type_synonym port_protocol_counts = "(int \<times> string) \<rightharpoonup> int"

section \<open>validate\_flow\_log\_entry\<close>

text \<open>
  \<open>ipaddress.ip_address\<close> belongs to the standard library: on a string it either
  returns an address or raises \<open>ValueError\<close>, and the validator observes nothing else.
  It is the parameter \<open>ip_ok\<close>. The module-level dictionary \<open>port_protocol_dict\<close> is
  the parameter of the same name.
\<close>

definition validate_fields ::
  "(string \<Rightarrow> bool) \<Rightarrow> protocol_table \<Rightarrow> string list \<Rightarrow> py_error + (bool \<times> reason)" where
  \<comment> \<open>Lines 76 to 102, on the 14 fields.\<close>
  "validate_fields ip_ok port_protocol_dict fields =
     (let version = fields ! 0; account_id = fields ! 1; interface_id = fields ! 2;
          srcaddr = fields ! 3; dstaddr = fields ! 4; srcport = fields ! 5;
          dstport = fields ! 6; protocol = fields ! 7; packets = fields ! 8;
          bytes = fields ! 9; start = fields ! 10; end = fields ! 11;
          action = fields ! 12; log_status = fields ! 13
      in
      if version \<noteq> ''2'' then Inr (False, Msg ''Invalid version'')
      else if \<not> (py_isdigit account_id \<and> length account_id = 12)
        then Inr (False, Msg ''Invalid account ID'')
      else if \<not> (startswith interface_id ''eni-'' \<and> length interface_id = 12)
        then Inr (False, Msg ''Invalid interface ID'')
      else if \<not> ip_ok srcaddr \<or> \<not> ip_ok dstaddr
        then Inr (False, Msg ''Invalid IP address'')
      else case py_int srcport of None \<Rightarrow> Inl (ValueError srcport) | Some sp \<Rightarrow>
      if \<not> (0 \<le> sp \<and> sp \<le> 65535) then Inr (False, Msg ''Invalid port number'')
      else case py_int dstport of None \<Rightarrow> Inl (ValueError dstport) | Some dp \<Rightarrow>
      if \<not> (0 \<le> dp \<and> dp \<le> 65535) then Inr (False, Msg ''Invalid port number'')
      else case py_int protocol of None \<Rightarrow> Inl (ValueError protocol) | Some pn \<Rightarrow>
      if port_protocol_dict pn = None then Inr (False, Msg ''Invalid protocol'')
      else case py_int packets of None \<Rightarrow> Inl (ValueError packets) | Some pk \<Rightarrow>
      if pk < 0 then Inr (False, Msg ''Invalid packets or bytes count'')
      else case py_int bytes of None \<Rightarrow> Inl (ValueError bytes) | Some bc \<Rightarrow>
      if bc < 0 then Inr (False, Msg ''Invalid packets or bytes count'')
      else if \<not> py_isdigit start then Inr (False, Msg ''Invalid timestamps'')
      else if \<not> py_isdigit end then Inr (False, Msg ''Invalid timestamps'')
      else case py_int end of None \<Rightarrow> Inl (ValueError end) | Some e \<Rightarrow>
      case py_int start of None \<Rightarrow> Inl (ValueError start) | Some s \<Rightarrow>
      if \<not> (e \<ge> s) then Inr (False, Msg ''Invalid timestamps'')
      else if action \<noteq> ''ACCEPT'' \<and> action \<noteq> ''REJECT''
        then Inr (False, Msg ''Invalid action'')
      else if log_status \<noteq> ''OK'' \<and> log_status \<noteq> ''NODATA'' \<and> log_status \<noteq> ''SKIPDATA''
        then Inr (False, Msg ''Invalid log status'')
      else Inr (True, Msg ''Valid entry''))"

definition validate_body ::
  "(string \<Rightarrow> bool) \<Rightarrow> protocol_table \<Rightarrow> string \<Rightarrow> py_error + (bool \<times> reason)" where
  \<comment> \<open>The body of the \<open>try\<close>, lines 72 to 102.\<close>
  "validate_body ip_ok port_protocol_dict entry =
     (let fields = py_split (py_strip entry)
      in if length fields \<noteq> 14 then Inr (False, Msg ''Incorrect number of fields'')
         else validate_fields ip_ok port_protocol_dict fields)"

definition validate_flow_log_entry ::
  "(string \<Rightarrow> bool) \<Rightarrow> protocol_table \<Rightarrow> string \<Rightarrow> bool \<times> reason" where
  \<comment> \<open>\<open>except Exception as e\<close>, lines 103 and 104, around the body.\<close>
  "validate_flow_log_entry ip_ok port_protocol_dict entry =
     (case validate_body ip_ok port_protocol_dict entry of
        Inl e \<Rightarrow> (False, ErrorInValidation e)
      | Inr result \<Rightarrow> result)"

section \<open>process\_flow\_logs\<close>

definition protocol_name :: "protocol_table \<Rightarrow> int \<Rightarrow> string" where
  \<comment> \<open>Line 122: \<open>port_protocol_dict.get(protocol_number, 'unknown').lower()\<close>.\<close>
  "protocol_name port_protocol_dict protocol_number =
     py_lower (case port_protocol_dict protocol_number of None \<Rightarrow> ''unknown'' | Some v \<Rightarrow> v)"

definition count_record ::
  "lookup_table \<Rightarrow> tag_counts \<times> port_protocol_counts \<Rightarrow> int \<Rightarrow> string \<Rightarrow>
     tag_counts \<times> port_protocol_counts" where
  \<comment> \<open>Lines 123 to 131: the tag of the record, and both counters.\<close>
  "count_record lookup_table agg dstport protocol =
     (let tag_counts = fst agg; port_protocol_counts = snd agg;
          tag = (case lookup_table (dstport, protocol) of None \<Rightarrow> ''untagged'' | Some t \<Rightarrow> t);
          port_protocol_key = (dstport, protocol)
      in ((case tag_counts tag of
             Some c \<Rightarrow> tag_counts(tag \<mapsto> c + 1)
           | None \<Rightarrow> tag_counts(tag \<mapsto> 1)),
          port_protocol_counts(port_protocol_key \<mapsto>
             (case port_protocol_counts port_protocol_key of None \<Rightarrow> 0 | Some c \<Rightarrow> c) + 1)))"

definition process_line ::
  "(string \<Rightarrow> bool) \<Rightarrow> protocol_table \<Rightarrow> lookup_table \<Rightarrow>
     tag_counts \<times> port_protocol_counts \<Rightarrow> string \<Rightarrow>
     py_error + (tag_counts \<times> port_protocol_counts)" where
  \<comment> \<open>One turn of the loop of lines 112 to 131. Nothing here is inside a \<open>try\<close>: a
      list index out of range or a failing \<open>int\<close> ends the run.\<close>
  "process_line ip_ok port_protocol_dict lookup_table agg line =
     (if \<not> fst (validate_flow_log_entry ip_ok port_protocol_dict line) then Inr agg
      else
        let parts = py_split line
        in if length parts \<le> 6 then Inl IndexError
           else case py_int (parts ! 6) of None \<Rightarrow> Inl (ValueError (parts ! 6)) | Some dstport \<Rightarrow>
           if length parts \<le> 7 then Inl IndexError
           else case py_int (parts ! 7) of None \<Rightarrow> Inl (ValueError (parts ! 7))
           | Some protocol_number \<Rightarrow>
               Inr (count_record lookup_table agg dstport
                      (protocol_name port_protocol_dict protocol_number)))"

fun process_lines ::
  "(string \<Rightarrow> bool) \<Rightarrow> protocol_table \<Rightarrow> lookup_table \<Rightarrow>
     tag_counts \<times> port_protocol_counts \<Rightarrow> string list \<Rightarrow>
     py_error + (tag_counts \<times> port_protocol_counts)" where
  "process_lines ip_ok port_protocol_dict lookup_table agg [] = Inr agg"
| "process_lines ip_ok port_protocol_dict lookup_table agg (line # rest) =
     (case process_line ip_ok port_protocol_dict lookup_table agg line of
        Inl e \<Rightarrow> Inl e
      | Inr agg' \<Rightarrow> process_lines ip_ok port_protocol_dict lookup_table agg' rest)"

definition process_flow_logs ::
  "(string \<Rightarrow> bool) \<Rightarrow> protocol_table \<Rightarrow> lookup_table \<Rightarrow> string list \<Rightarrow>
     py_error + (tag_counts \<times> port_protocol_counts)" where
  \<comment> \<open>The aggregates that lines 133 to 153 write to the report; the argument is the list
      of the lines of the flow-log file.\<close>
  "process_flow_logs ip_ok port_protocol_dict lookup_table lines =
     process_lines ip_ok port_protocol_dict lookup_table (Map.empty, Map.empty) lines"

section \<open>load\_lookup\_table\<close>

definition lookup_row :: "lookup_table \<Rightarrow> string list \<Rightarrow> lookup_table" where
  \<comment> \<open>Lines 48 to 64 on one row of \<open>csv.reader\<close>; the \<open>ValueError\<close> of \<open>int\<close> is caught
      at line 63 and the row skipped.\<close>
  "lookup_row lookup_table row =
     (if length row \<noteq> 3 then lookup_table
      else case py_int (py_strip (row ! 0)) of
             None \<Rightarrow> lookup_table
           | Some dstport \<Rightarrow>
               let protocol = py_lower (py_strip (row ! 1));
                   tag = py_lower (py_strip (row ! 2))
               in if \<not> (0 \<le> dstport \<and> dstport \<le> 65535) then lookup_table
                  else lookup_table((dstport, protocol) \<mapsto> tag))"

fun lookup_rows :: "lookup_table \<Rightarrow> csv_reader \<Rightarrow> py_error + lookup_table" where
  \<comment> \<open>The loop of line 47.\<close>
  "lookup_rows lookup_table [] = Inr lookup_table"
| "lookup_rows lookup_table (Inl e # rest) = Inl e"
| "lookup_rows lookup_table (Inr row # rest) = lookup_rows (lookup_row lookup_table row) rest"

definition load_lookup_table :: "csv_reader \<Rightarrow> py_error + lookup_table" where
  \<comment> \<open>The argument is the reader of line 45; \<open>next(reader)\<close> at line 46 takes the header
      and raises on a file without rows.\<close>
  "load_lookup_table reader =
     (case reader of
        [] \<Rightarrow> Inl StopIteration
      | Inl e # rest \<Rightarrow> Inl e
      | Inr header # rest \<Rightarrow> lookup_rows Map.empty rest)"

section \<open>build\_port\_protocol\_dict\<close>

definition dict_row :: "string list \<Rightarrow> string list \<Rightarrow> (string \<rightharpoonup> string option)" where
  \<comment> \<open>The dictionary \<open>csv.DictReader\<close> makes of a row: the field names zipped with the
      cells, and \<open>None\<close> for the field names a short row leaves without a cell.\<close>
  "dict_row fieldnames row =
     map_of (rev (zip fieldnames
                    (map Some row @ replicate (length fieldnames - length row) None)))"

definition protocol_row ::
  "protocol_table \<Rightarrow> (string \<rightharpoonup> string option) \<Rightarrow> py_error + protocol_table" where
  \<comment> \<open>Lines 24 to 35 on one row.\<close>
  "protocol_row port_protocol_dict row =
     (case row ''Decimal'' of
        None \<Rightarrow> Inl (KeyError ''Decimal'')
      | Some None \<Rightarrow> Inl AttributeError
      | Some (Some d) \<Rightarrow>
          let decimal = py_strip d
          in case row ''Keyword'' of
               None \<Rightarrow> Inl (KeyError ''Keyword'')
             | Some None \<Rightarrow> Inl AttributeError
             | Some (Some k) \<Rightarrow>
                 let keyword = py_strip k
                 in if CHR ''-'' \<in> set decimal then Inr port_protocol_dict
                    else case py_int decimal of
                           None \<Rightarrow> Inr port_protocol_dict
                         | Some key \<Rightarrow> Inr (port_protocol_dict(key \<mapsto> py_lower keyword)))"

fun protocol_rows ::
  "protocol_table \<Rightarrow> string list \<Rightarrow> csv_reader \<Rightarrow> py_error + protocol_table" where
  \<comment> \<open>The loop of line 23 over a \<open>csv.DictReader\<close> with the given field names: it
      passes over the rows without any cell and makes a dictionary of every other.\<close>
  "protocol_rows port_protocol_dict fieldnames [] = Inr port_protocol_dict"
| "protocol_rows port_protocol_dict fieldnames (Inl e # rest) = Inl e"
| "protocol_rows port_protocol_dict fieldnames (Inr row # rest) =
     (if row = [] then protocol_rows port_protocol_dict fieldnames rest
      else case protocol_row port_protocol_dict (dict_row fieldnames row) of
             Inl e \<Rightarrow> Inl e
           | Inr d \<Rightarrow> protocol_rows d fieldnames rest)"

definition build_port_protocol_dict ::
  "protocol_table \<Rightarrow> csv_reader \<Rightarrow> py_error + protocol_table" where
  \<comment> \<open>The first argument is the module-level dictionary when the function is called
      (empty, line 17, in \<open>main\<close>); the second is the reader inside the \<open>DictReader\<close> of
      line 22, whose first row gives the field names. On a file without rows the loop
      has no turn.\<close>
  "build_port_protocol_dict port_protocol_dict reader =
     (case reader of
        [] \<Rightarrow> Inr port_protocol_dict
      | Inl e # rest \<Rightarrow> Inl e
      | Inr fieldnames # rest \<Rightarrow> protocol_rows port_protocol_dict fieldnames rest)"

section \<open>IPv4 addresses in dotted notation\<close>

text \<open>
  \<open>ipaddress.ip_address\<close> accepts every string that \<open>ipaddress.IPv4Address\<close> accepts
  (and the IPv6 addresses besides). The examples of this theory take the IPv4 check,
  as \<open>IPv4Address\<close> makes it (four decimal octets of at most three digits, without
  leading zeros, each at most 255), for \<open>ip_ok\<close>; their addresses are IPv4 addresses.
\<close>

fun split_on :: "char \<Rightarrow> string \<Rightarrow> string list" where
  \<comment> \<open>\<open>s.split(c)\<close>\<close>
  "split_on c [] = [[]]"
| "split_on c (x # xs) =
     (if x = c then [] # split_on c xs
      else case split_on c xs of [] \<Rightarrow> [[x]] | w # ws \<Rightarrow> (x # w) # ws)"

definition ipv4_octet_ok :: "string \<Rightarrow> bool" where
  "ipv4_octet_ok s =
     (s \<noteq> [] \<and> list_all ascii_digit s \<and> length s \<le> 3 \<and>
      \<not> (s \<noteq> ''0'' \<and> hd s = CHR ''0'') \<and> decimal_value s \<le> 255)"

definition ipv4_ok :: "string \<Rightarrow> bool" where
  "ipv4_ok s =
     (CHR ''/'' \<notin> set s \<and>
      (let octets = split_on CHR ''.'' s
       in length octets = 4 \<and> list_all ipv4_octet_ok octets))"

section \<open>The rules of the record validator, as the specification words them\<close>

datatype rule =
    FieldCount | Version | AccountID | InterfaceID | IPAddress | PortNumber
  | ProtocolNumber | PacketsBytes | Timestamps | Action | LogStatus

definition all_rules :: "rule list" where
  "all_rules = [FieldCount, Version, AccountID, InterfaceID, IPAddress, PortNumber,
                ProtocolNumber, PacketsBytes, Timestamps, Action, LogStatus]"

definition earlier_rules :: "rule \<Rightarrow> rule list" where
  \<comment> \<open>The rules checked before \<open>r\<close>, in the order of the validator.\<close>
  "earlier_rules r = takeWhile (\<lambda>x. x \<noteq> r) all_rules"

fun rule_reason :: "rule \<Rightarrow> string" where
  "rule_reason FieldCount = ''Incorrect number of fields''"
| "rule_reason Version = ''Invalid version''"
| "rule_reason AccountID = ''Invalid account ID''"
| "rule_reason InterfaceID = ''Invalid interface ID''"
| "rule_reason IPAddress = ''Invalid IP address''"
| "rule_reason PortNumber = ''Invalid port number''"
| "rule_reason ProtocolNumber = ''Invalid protocol''"
| "rule_reason PacketsBytes = ''Invalid packets or bytes count''"
| "rule_reason Timestamps = ''Invalid timestamps''"
| "rule_reason Action = ''Invalid action''"
| "rule_reason LogStatus = ''Invalid log status''"

definition port_ok :: "string \<Rightarrow> bool" where
  \<comment> \<open>"parses as an integer in [0, 65535]"\<close>
  "port_ok s = (case py_int s of None \<Rightarrow> False | Some p \<Rightarrow> 0 \<le> p \<and> p \<le> 65535)"

definition count_ok :: "string \<Rightarrow> bool" where
  \<comment> \<open>"parses as a non-negative integer"\<close>
  "count_ok s = (case py_int s of None \<Rightarrow> False | Some n \<Rightarrow> 0 \<le> n)"

definition protocol_ok :: "protocol_table \<Rightarrow> string \<Rightarrow> bool" where
  \<comment> \<open>"parsed as an integer, must be a key present in the ProtocolTable"\<close>
  "protocol_ok port_protocol_dict s =
     (case py_int s of None \<Rightarrow> False | Some n \<Rightarrow> port_protocol_dict n \<noteq> None)"

definition timestamps_ok :: "string \<Rightarrow> string \<Rightarrow> bool" where
  \<comment> \<open>"must each be all-digit, and end \<open>\<ge>\<close> start numerically"\<close>
  "timestamps_ok start end =
     (py_isdigit start \<and> py_isdigit end \<and>
      (case py_int end of
         None \<Rightarrow> False
       | Some e \<Rightarrow> (case py_int start of None \<Rightarrow> False | Some s \<Rightarrow> s \<le> e)))"

fun satisfies :: "(string \<Rightarrow> bool) \<Rightarrow> protocol_table \<Rightarrow> string list \<Rightarrow> rule \<Rightarrow> bool" where
  "satisfies ip_ok ppd fields FieldCount = (length fields = 14)"
| "satisfies ip_ok ppd fields Version = (fields ! 0 = ''2'')"
| "satisfies ip_ok ppd fields AccountID =
     (py_isdigit (fields ! 1) \<and> length (fields ! 1) = 12)"
| "satisfies ip_ok ppd fields InterfaceID =
     (startswith (fields ! 2) ''eni-'' \<and> length (fields ! 2) = 12)"
| "satisfies ip_ok ppd fields IPAddress = (ip_ok (fields ! 3) \<and> ip_ok (fields ! 4))"
| "satisfies ip_ok ppd fields PortNumber = (port_ok (fields ! 5) \<and> port_ok (fields ! 6))"
| "satisfies ip_ok ppd fields ProtocolNumber = protocol_ok ppd (fields ! 7)"
| "satisfies ip_ok ppd fields PacketsBytes = (count_ok (fields ! 8) \<and> count_ok (fields ! 9))"
| "satisfies ip_ok ppd fields Timestamps = timestamps_ok (fields ! 10) (fields ! 11)"
| "satisfies ip_ok ppd fields Action = (fields ! 12 = ''ACCEPT'' \<or> fields ! 12 = ''REJECT'')"
| "satisfies ip_ok ppd fields LogStatus =
     (fields ! 13 = ''OK'' \<or> fields ! 13 = ''NODATA'' \<or> fields ! 13 = ''SKIPDATA'')"

definition rejected_literal :: "string list \<Rightarrow> rule \<Rightarrow> string option" where
  \<comment> \<open>The field, if there is one, that \<open>int\<close> rejects while the validator checks the
      rule, the rules before it being satisfied: the operands are converted from left
      to right, the second one only when the first did not decide.\<close>
  "rejected_literal fields r =
     (case r of
        PortNumber \<Rightarrow>
          if py_int (fields ! 5) = None then Some (fields ! 5)
          else if port_ok (fields ! 5) \<and> py_int (fields ! 6) = None then Some (fields ! 6)
          else None
      | ProtocolNumber \<Rightarrow> if py_int (fields ! 7) = None then Some (fields ! 7) else None
      | PacketsBytes \<Rightarrow>
          if py_int (fields ! 8) = None then Some (fields ! 8)
          else if count_ok (fields ! 8) \<and> py_int (fields ! 9) = None then Some (fields ! 9)
          else None
      | Timestamps \<Rightarrow>
          if py_isdigit (fields ! 10) \<and> py_isdigit (fields ! 11)
          then (if py_int (fields ! 11) = None then Some (fields ! 11)
                else if py_int (fields ! 10) = None then Some (fields ! 10)
                else None)
          else None
      | _ \<Rightarrow> None)"

definition violation_result :: "string list \<Rightarrow> rule \<Rightarrow> bool \<times> reason" where
  \<comment> \<open>The result for a line whose first violated rule is \<open>r\<close>: the reason of the rule,
      or the handler's message when \<open>int\<close> raised on the way.\<close>
  "violation_result fields r =
     (case rejected_literal fields r of
        None \<Rightarrow> (False, Msg (rule_reason r))
      | Some f \<Rightarrow> (False, ErrorInValidation (ValueError f)))"

definition accepted :: "(string \<Rightarrow> bool) \<Rightarrow> protocol_table \<Rightarrow> string \<Rightarrow> bool" where
  \<comment> \<open>The line is one the validator accepts (\<open>is_valid\<close> at line 113).\<close>
  "accepted ip_ok port_protocol_dict line =
     fst (validate_flow_log_entry ip_ok port_protocol_dict line)"

definition sum_counts :: "('k \<rightharpoonup> int) \<Rightarrow> int" where
  \<comment> \<open>The sum of all counts of an aggregate.\<close>
  "sum_counts counts = (\<Sum>k \<in> dom counts. the (counts k))"

definition counted :: "tag_counts \<times> port_protocol_counts \<Rightarrow> int \<Rightarrow> bool" where
  \<comment> \<open>Both aggregates are finite, hold positive counts only, and their counts sum to
      \<open>n\<close>.\<close>
  "counted agg n =
     (finite (dom (fst agg)) \<and> finite (dom (snd agg)) \<and>
      sum_counts (fst agg) = n \<and> sum_counts (snd agg) = n \<and>
      (\<forall>tag c. fst agg tag = Some c \<longrightarrow> 0 < c) \<and>
      (\<forall>key c. snd agg key = Some c \<longrightarrow> 0 < c))"

section \<open>The entries of the two tables, as the specification words them\<close>

definition lookup_entry :: "string list \<Rightarrow> ((int \<times> string) \<times> string) option" where
  \<comment> \<open>A data row with exactly 3 columns whose first column, trimmed, parses as an
      integer in [0, 65535] stands for the entry (port, lowercase(trimmed protocol))
      \<open>\<mapsto>\<close> lowercase(trimmed tag); any other row stands for no entry.\<close>
  "lookup_entry row =
     (if length row = 3 \<and> port_ok (py_strip (row ! 0))
      then Some ((the (py_int (py_strip (row ! 0))), py_lower (py_strip (row ! 1))),
                 py_lower (py_strip (row ! 2)))
      else None)"

definition plain_number :: "string \<Rightarrow> bool" where
  \<comment> \<open>"a plain non-negative integer": decimal digits and nothing else\<close>
  "plain_number s = (s \<noteq> [] \<and> list_all ascii_digit s)"

definition protocol_entry :: "(string \<rightharpoonup> string option) \<Rightarrow> (int \<times> string) option" where
  \<comment> \<open>A row of the protocol reference file with a \<open>Decimal\<close> and a \<open>Keyword\<close> cell stands
      for the entry integer \<open>\<mapsto>\<close> lowercase(trimmed Keyword) when its trimmed \<open>Decimal\<close>
      has no hyphen and parses as an integer; any other row stands for no entry.\<close>
  "protocol_entry row =
     (case row ''Decimal'' of
        Some (Some d) \<Rightarrow>
          (case row ''Keyword'' of
             Some (Some k) \<Rightarrow>
               if CHR ''-'' \<in> set (py_strip d) then None
               else map_option (\<lambda>n. (n, py_lower (py_strip k))) (py_int (py_strip d))
           | _ \<Rightarrow> None)
      | _ \<Rightarrow> None)"

definition has_cells :: "(string \<rightharpoonup> string option) \<Rightarrow> bool" where
  \<comment> \<open>The row has a cell in the columns \<open>Decimal\<close> and \<open>Keyword\<close>.\<close>
  "has_cells row =
     (case row ''Decimal'' of
        Some (Some d) \<Rightarrow> (case row ''Keyword'' of Some (Some k) \<Rightarrow> True | _ \<Rightarrow> False)
      | _ \<Rightarrow> False)"

definition put_entry :: "('r \<Rightarrow> ('k \<times> 'v) option) \<Rightarrow> ('k \<rightharpoonup> 'v) \<Rightarrow> 'r \<Rightarrow> ('k \<rightharpoonup> 'v)" where
  \<comment> \<open>A table after the entry of a row, if the row has one, is stored in it.\<close>
  "put_entry entry m r = (case entry r of None \<Rightarrow> m | Some (k, v) \<Rightarrow> m(k \<mapsto> v))"

section \<open>Splitting and trimming\<close>

lemma split_from_spaces:
  "list_all py_isspace ws \<Longrightarrow> split_from w ws = split_from w []"
  by (induction ws arbitrary: w) auto

lemma split_from_append_spaces:
  "list_all py_isspace ws \<Longrightarrow> split_from w (s @ ws) = split_from w s"
proof (induction s arbitrary: w)
  case Nil
  then show ?case by (simp add: split_from_spaces)
next
  case (Cons c s)
  then show ?case by simp
qed

lemma split_from_dropWhile:
  "split_from [] (dropWhile py_isspace s) = split_from [] s"
  by (induction s) auto

lemma strip_decompose:
  "\<exists>ws. list_all py_isspace ws \<and> dropWhile py_isspace s = py_strip s @ ws"
proof -
  let ?t = "dropWhile py_isspace s"
  have "rev ?t = takeWhile py_isspace (rev ?t) @ dropWhile py_isspace (rev ?t)"
    by simp
  then have "?t = rev (dropWhile py_isspace (rev ?t)) @ rev (takeWhile py_isspace (rev ?t))"
    by (metis rev_append rev_rev_ident)
  moreover have "list_all py_isspace (rev (takeWhile py_isspace (rev ?t)))"
    by (simp add: list_all_iff) (meson set_takeWhileD)
  ultimately show ?thesis
    unfolding py_strip_def by blast
qed

lemma py_split_strip: "py_split (py_strip s) = py_split s"
proof -
  obtain ws where ws: "list_all py_isspace ws" "dropWhile py_isspace s = py_strip s @ ws"
    using strip_decompose by blast
  have "py_split s = split_from [] (dropWhile py_isspace s)"
    by (simp add: py_split_def split_from_dropWhile)
  also have "\<dots> = split_from [] (py_strip s)"
    using ws by (simp add: split_from_append_spaces)
  finally show ?thesis by (simp add: py_split_def)
qed

section \<open>The validator, rule by rule\<close>

lemma port_numberD:
  "satisfies ip_ok ppd fields PortNumber \<Longrightarrow>
   \<exists>sp dp. py_int (fields ! 5) = Some sp \<and> 0 \<le> sp \<and> sp \<le> 65535 \<and>
           py_int (fields ! 6) = Some dp \<and> 0 \<le> dp \<and> dp \<le> 65535"
  by (cases "py_int (fields ! 5)"; cases "py_int (fields ! 6)") (simp_all add: port_ok_def)

lemma protocol_numberD:
  "satisfies ip_ok ppd fields ProtocolNumber \<Longrightarrow>
   \<exists>pn v. py_int (fields ! 7) = Some pn \<and> ppd pn = Some v"
  by (cases "py_int (fields ! 7)") (auto simp add: protocol_ok_def)

lemma packets_bytesD:
  "satisfies ip_ok ppd fields PacketsBytes \<Longrightarrow>
   \<exists>pk bc. py_int (fields ! 8) = Some pk \<and> 0 \<le> pk \<and> py_int (fields ! 9) = Some bc \<and> 0 \<le> bc"
  by (cases "py_int (fields ! 8)"; cases "py_int (fields ! 9)") (simp_all add: count_ok_def)

lemma timestampsD:
  "satisfies ip_ok ppd fields Timestamps \<Longrightarrow>
   py_isdigit (fields ! 10) \<and> py_isdigit (fields ! 11) \<and>
   (\<exists>s e. py_int (fields ! 10) = Some s \<and> py_int (fields ! 11) = Some e \<and> s \<le> e)"
  by (cases "py_int (fields ! 10)"; cases "py_int (fields ! 11)")
     (simp_all add: timestamps_ok_def)

lemma fields_version:
  assumes "\<not> satisfies ip_ok ppd fields Version"
  shows "validate_fields ip_ok ppd fields = Inr (False, Msg ''Invalid version'')"
  using assms by (simp add: validate_fields_def)

lemma fields_account_id:
  assumes "satisfies ip_ok ppd fields Version" "\<not> satisfies ip_ok ppd fields AccountID"
  shows "validate_fields ip_ok ppd fields = Inr (False, Msg ''Invalid account ID'')"
  using assms by (simp add: validate_fields_def Let_def)

lemma fields_interface_id:
  assumes "satisfies ip_ok ppd fields Version" "satisfies ip_ok ppd fields AccountID"
    "\<not> satisfies ip_ok ppd fields InterfaceID"
  shows "validate_fields ip_ok ppd fields = Inr (False, Msg ''Invalid interface ID'')"
  using assms by (simp add: validate_fields_def Let_def)

lemma fields_ip_address:
  assumes "satisfies ip_ok ppd fields Version" "satisfies ip_ok ppd fields AccountID"
    "satisfies ip_ok ppd fields InterfaceID" "\<not> satisfies ip_ok ppd fields IPAddress"
  shows "validate_fields ip_ok ppd fields = Inr (False, Msg ''Invalid IP address'')"
  using assms by (simp add: validate_fields_def Let_def)

lemma fields_port_number:
  assumes pre: "satisfies ip_ok ppd fields Version" "satisfies ip_ok ppd fields AccountID"
    "satisfies ip_ok ppd fields InterfaceID" "satisfies ip_ok ppd fields IPAddress"
    and bad: "\<not> satisfies ip_ok ppd fields PortNumber"
  shows "validate_fields ip_ok ppd fields =
     (if py_int (fields ! 5) = None then Inl (ValueError (fields ! 5))
      else if port_ok (fields ! 5) \<and> py_int (fields ! 6) = None
        then Inl (ValueError (fields ! 6))
      else Inr (False, Msg ''Invalid port number''))"
proof (cases "py_int (fields ! 5)")
  case None
  with pre show ?thesis by (simp add: validate_fields_def Let_def)
next
  case sp: (Some sp)
  show ?thesis
  proof (cases "0 \<le> sp \<and> sp \<le> 65535")
    case False
    with pre sp show ?thesis by (auto simp add: validate_fields_def Let_def port_ok_def)
  next
    case True
    note range = this
    show ?thesis
    proof (cases "py_int (fields ! 6)")
      case None
      with pre sp range show ?thesis by (simp add: validate_fields_def Let_def port_ok_def)
    next
      case (Some dp)
      with bad sp range have "\<not> (0 \<le> dp \<and> dp \<le> 65535)" by (simp add: port_ok_def)
      with pre sp range Some show ?thesis by (simp add: validate_fields_def Let_def port_ok_def)
    qed
  qed
qed


lemma fields_protocol:
  assumes pre: "satisfies ip_ok ppd fields Version" "satisfies ip_ok ppd fields AccountID"
    "satisfies ip_ok ppd fields InterfaceID" "satisfies ip_ok ppd fields IPAddress"
    and ports: "satisfies ip_ok ppd fields PortNumber"
    and bad: "\<not> satisfies ip_ok ppd fields ProtocolNumber"
  shows "validate_fields ip_ok ppd fields =
     (if py_int (fields ! 7) = None then Inl (ValueError (fields ! 7))
      else Inr (False, Msg ''Invalid protocol''))"
proof -
  from ports obtain sp dp where
    p: "py_int (fields ! 5) = Some sp" "0 \<le> sp" "sp \<le> 65535"
       "py_int (fields ! 6) = Some dp" "0 \<le> dp" "dp \<le> 65535"
    using port_numberD by blast
  show ?thesis
  proof (cases "py_int (fields ! 7)")
    case None
    with pre p show ?thesis by (simp add: validate_fields_def Let_def)
  next
    case (Some pn)
    with bad have "ppd pn = None" by (simp add: protocol_ok_def)
    with pre p Some show ?thesis by (simp add: validate_fields_def Let_def)
  qed
qed

lemma fields_packets_bytes:
  assumes pre: "satisfies ip_ok ppd fields Version" "satisfies ip_ok ppd fields AccountID"
    "satisfies ip_ok ppd fields InterfaceID" "satisfies ip_ok ppd fields IPAddress"
    and ports: "satisfies ip_ok ppd fields PortNumber"
    and proto: "satisfies ip_ok ppd fields ProtocolNumber"
    and bad: "\<not> satisfies ip_ok ppd fields PacketsBytes"
  shows "validate_fields ip_ok ppd fields =
     (if py_int (fields ! 8) = None then Inl (ValueError (fields ! 8))
      else if count_ok (fields ! 8) \<and> py_int (fields ! 9) = None
        then Inl (ValueError (fields ! 9))
      else Inr (False, Msg ''Invalid packets or bytes count''))"
proof -
  from ports obtain sp dp where
    p: "py_int (fields ! 5) = Some sp" "0 \<le> sp" "sp \<le> 65535"
       "py_int (fields ! 6) = Some dp" "0 \<le> dp" "dp \<le> 65535"
    using port_numberD by blast
  from proto obtain pn v where q: "py_int (fields ! 7) = Some pn" "ppd pn = Some v"
    using protocol_numberD by blast
  show ?thesis
  proof (cases "py_int (fields ! 8)")
    case None
    with pre p q show ?thesis by (simp add: validate_fields_def Let_def)
  next
    case pk: (Some pk)
    show ?thesis
    proof (cases "pk < 0")
      case True
      with pre p q pk show ?thesis by (simp add: validate_fields_def Let_def count_ok_def)
    next
      case False
      note nonneg = this
      show ?thesis
      proof (cases "py_int (fields ! 9)")
        case None
        with pre p q pk nonneg show ?thesis
          by (simp add: validate_fields_def Let_def count_ok_def)
      next
        case (Some bc)
        with bad pk nonneg have "bc < 0" by (simp add: count_ok_def)
        with pre p q pk nonneg Some show ?thesis
          by (simp add: validate_fields_def Let_def count_ok_def)
      qed
    qed
  qed
qed

lemma fields_timestamps:
  assumes pre: "satisfies ip_ok ppd fields Version" "satisfies ip_ok ppd fields AccountID"
    "satisfies ip_ok ppd fields InterfaceID" "satisfies ip_ok ppd fields IPAddress"
    and ports: "satisfies ip_ok ppd fields PortNumber"
    and proto: "satisfies ip_ok ppd fields ProtocolNumber"
    and counts: "satisfies ip_ok ppd fields PacketsBytes"
    and bad: "\<not> satisfies ip_ok ppd fields Timestamps"
  shows "validate_fields ip_ok ppd fields =
     (if py_isdigit (fields ! 10) \<and> py_isdigit (fields ! 11) \<and> py_int (fields ! 11) = None
        then Inl (ValueError (fields ! 11))
      else if py_isdigit (fields ! 10) \<and> py_isdigit (fields ! 11) \<and> py_int (fields ! 10) = None
        then Inl (ValueError (fields ! 10))
      else Inr (False, Msg ''Invalid timestamps''))"
proof -
  from ports obtain sp dp where
    p: "py_int (fields ! 5) = Some sp" "0 \<le> sp" "sp \<le> 65535"
       "py_int (fields ! 6) = Some dp" "0 \<le> dp" "dp \<le> 65535"
    using port_numberD by blast
  from proto obtain pn v where q: "py_int (fields ! 7) = Some pn" "ppd pn = Some v"
    using protocol_numberD by blast
  from counts obtain pk bc where
    c: "py_int (fields ! 8) = Some pk" "0 \<le> pk" "py_int (fields ! 9) = Some bc" "0 \<le> bc"
    using packets_bytesD by blast
  show ?thesis
  proof (cases "py_isdigit (fields ! 10) \<and> py_isdigit (fields ! 11)")
    case False
    with pre p q c show ?thesis by (auto simp add: validate_fields_def Let_def)
  next
    case digits: True
    show ?thesis
    proof (cases "py_int (fields ! 11)")
      case None
      with pre p q c digits show ?thesis by (simp add: validate_fields_def Let_def)
    next
      case e: (Some e)
      show ?thesis
      proof (cases "py_int (fields ! 10)")
        case None
        with pre p q c digits e show ?thesis by (simp add: validate_fields_def Let_def)
      next
        case (Some s)
        with bad digits e have "\<not> s \<le> e" by (simp add: timestamps_ok_def)
        with pre p q c digits e Some show ?thesis by (simp add: validate_fields_def Let_def)
      qed
    qed
  qed
qed

lemma fields_tail:
  assumes pre: "satisfies ip_ok ppd fields Version" "satisfies ip_ok ppd fields AccountID"
    "satisfies ip_ok ppd fields InterfaceID" "satisfies ip_ok ppd fields IPAddress"
    and ports: "satisfies ip_ok ppd fields PortNumber"
    and proto: "satisfies ip_ok ppd fields ProtocolNumber"
    and counts: "satisfies ip_ok ppd fields PacketsBytes"
    and times: "satisfies ip_ok ppd fields Timestamps"
  shows "validate_fields ip_ok ppd fields =
     (if \<not> satisfies ip_ok ppd fields Action then Inr (False, Msg ''Invalid action'')
      else if \<not> satisfies ip_ok ppd fields LogStatus then Inr (False, Msg ''Invalid log status'')
      else Inr (True, Msg ''Valid entry''))"
proof -
  from ports obtain sp dp where
    p: "py_int (fields ! 5) = Some sp" "0 \<le> sp" "sp \<le> 65535"
       "py_int (fields ! 6) = Some dp" "0 \<le> dp" "dp \<le> 65535"
    using port_numberD by blast
  from proto obtain pn v where q: "py_int (fields ! 7) = Some pn" "ppd pn = Some v"
    using protocol_numberD by blast
  from counts obtain pk bc where
    c: "py_int (fields ! 8) = Some pk" "0 \<le> pk" "py_int (fields ! 9) = Some bc" "0 \<le> bc"
    using packets_bytesD by blast
  from times obtain s e where
    t: "py_isdigit (fields ! 10)" "py_isdigit (fields ! 11)"
       "py_int (fields ! 10) = Some s" "py_int (fields ! 11) = Some e" "s \<le> e"
    using timestampsD by blast
  from pre p q c t show ?thesis by (simp add: validate_fields_def Let_def)
qed

section \<open>The first violated rule decides\<close>

lemma body_14:
  assumes "length (py_split line) = 14"
  shows "validate_body ip_ok ppd line = validate_fields ip_ok ppd (py_split line)"
  using assms by (simp add: validate_body_def py_split_strip)

lemma body_field_count:
  assumes "length (py_split line) \<noteq> 14"
  shows "validate_body ip_ok ppd line = Inr (False, Msg ''Incorrect number of fields'')"
  using assms by (simp add: validate_body_def py_split_strip)

lemma set_all_rules: "set all_rules = UNIV"
proof -
  have "r \<in> set all_rules" for r by (cases r) (simp_all add: all_rules_def)
  then show ?thesis by blast
qed

lemma first_failure:
  "\<exists>x\<in>set xs. \<not> P x \<Longrightarrow>
   \<exists>x\<in>set xs. \<not> P x \<and> (\<forall>y\<in>set (takeWhile (\<lambda>z. z \<noteq> x) xs). P y)"
proof (induction xs)
  case Nil
  then show ?case by simp
next
  case (Cons a xs)
  show ?case
  proof (cases "P a")
    case False
    then show ?thesis by auto
  next
    case True
    with Cons.prems have "\<exists>x\<in>set xs. \<not> P x" by auto
    from Cons.IH [OF this] obtain x where
      x: "x \<in> set xs" "\<not> P x" "\<forall>y\<in>set (takeWhile (\<lambda>z. z \<noteq> x) xs). P y" by blast
    with True have "a \<noteq> x" by blast
    with x True show ?thesis by auto
  qed
qed

lemma first_violation_body:
  assumes bad: "\<not> satisfies ip_ok ppd (py_split line) r"
    and pre: "\<forall>r'\<in>set (earlier_rules r). satisfies ip_ok ppd (py_split line) r'"
  shows "validate_body ip_ok ppd line =
     (case rejected_literal (py_split line) r of
        None \<Rightarrow> Inr (False, Msg (rule_reason r))
      | Some f \<Rightarrow> Inl (ValueError f))"
proof (cases r)
  case FieldCount
  with bad show ?thesis
    by (simp add: body_field_count rejected_literal_def)
next
  case Version
  with pre have n: "length (py_split line) = 14"
    by (simp add: earlier_rules_def all_rules_def)
  from bad Version show ?thesis
    by (simp add: body_14 [OF n] fields_version rejected_literal_def)
next
  case AccountID
  with pre have n: "length (py_split line) = 14"
    and p: "satisfies ip_ok ppd (py_split line) Version"
    by (simp_all add: earlier_rules_def all_rules_def)
  from bad AccountID show ?thesis
    by (simp add: body_14 [OF n] fields_account_id [OF p] rejected_literal_def)
next
  case InterfaceID
  with pre have n: "length (py_split line) = 14"
    and p: "satisfies ip_ok ppd (py_split line) Version"
      "satisfies ip_ok ppd (py_split line) AccountID"
    by (simp_all add: earlier_rules_def all_rules_def)
  from bad InterfaceID show ?thesis
    by (simp add: body_14 [OF n] fields_interface_id [OF p] rejected_literal_def)
next
  case IPAddress
  with pre have n: "length (py_split line) = 14"
    and p: "satisfies ip_ok ppd (py_split line) Version"
      "satisfies ip_ok ppd (py_split line) AccountID"
      "satisfies ip_ok ppd (py_split line) InterfaceID"
    by (simp_all add: earlier_rules_def all_rules_def)
  from bad IPAddress show ?thesis
    by (simp add: body_14 [OF n] fields_ip_address [OF p] rejected_literal_def)
next
  case PortNumber
  with pre have n: "length (py_split line) = 14"
    and p: "satisfies ip_ok ppd (py_split line) Version"
      "satisfies ip_ok ppd (py_split line) AccountID"
      "satisfies ip_ok ppd (py_split line) InterfaceID"
      "satisfies ip_ok ppd (py_split line) IPAddress"
    by (simp_all add: earlier_rules_def all_rules_def)
  from bad PortNumber show ?thesis
    by (simp add: body_14 [OF n] fields_port_number [OF p] rejected_literal_def)
next
  case ProtocolNumber
  with pre have n: "length (py_split line) = 14"
    and p: "satisfies ip_ok ppd (py_split line) Version"
      "satisfies ip_ok ppd (py_split line) AccountID"
      "satisfies ip_ok ppd (py_split line) InterfaceID"
      "satisfies ip_ok ppd (py_split line) IPAddress"
      "satisfies ip_ok ppd (py_split line) PortNumber"
    by (simp_all add: earlier_rules_def all_rules_def)
  from bad ProtocolNumber show ?thesis
    by (simp add: body_14 [OF n] fields_protocol [OF p] rejected_literal_def)
next
  case PacketsBytes
  with pre have n: "length (py_split line) = 14"
    and p: "satisfies ip_ok ppd (py_split line) Version"
      "satisfies ip_ok ppd (py_split line) AccountID"
      "satisfies ip_ok ppd (py_split line) InterfaceID"
      "satisfies ip_ok ppd (py_split line) IPAddress"
      "satisfies ip_ok ppd (py_split line) PortNumber"
      "satisfies ip_ok ppd (py_split line) ProtocolNumber"
    by (simp_all add: earlier_rules_def all_rules_def)
  from bad PacketsBytes show ?thesis
    by (simp add: body_14 [OF n] fields_packets_bytes [OF p] rejected_literal_def)
next
  case Timestamps
  with pre have n: "length (py_split line) = 14"
    and p: "satisfies ip_ok ppd (py_split line) Version"
      "satisfies ip_ok ppd (py_split line) AccountID"
      "satisfies ip_ok ppd (py_split line) InterfaceID"
      "satisfies ip_ok ppd (py_split line) IPAddress"
      "satisfies ip_ok ppd (py_split line) PortNumber"
      "satisfies ip_ok ppd (py_split line) ProtocolNumber"
      "satisfies ip_ok ppd (py_split line) PacketsBytes"
    by (simp_all add: earlier_rules_def all_rules_def)
  from bad Timestamps show ?thesis
    by (auto simp add: body_14 [OF n] fields_timestamps [OF p] rejected_literal_def)
next
  case Action
  with pre have n: "length (py_split line) = 14"
    and p: "satisfies ip_ok ppd (py_split line) Version"
      "satisfies ip_ok ppd (py_split line) AccountID"
      "satisfies ip_ok ppd (py_split line) InterfaceID"
      "satisfies ip_ok ppd (py_split line) IPAddress"
      "satisfies ip_ok ppd (py_split line) PortNumber"
      "satisfies ip_ok ppd (py_split line) ProtocolNumber"
      "satisfies ip_ok ppd (py_split line) PacketsBytes"
      "satisfies ip_ok ppd (py_split line) Timestamps"
    by (simp_all add: earlier_rules_def all_rules_def)
  from bad Action show ?thesis
    by (simp add: body_14 [OF n] fields_tail [OF p] rejected_literal_def)
next
  case LogStatus
  with pre have n: "length (py_split line) = 14"
    and p: "satisfies ip_ok ppd (py_split line) Version"
      "satisfies ip_ok ppd (py_split line) AccountID"
      "satisfies ip_ok ppd (py_split line) InterfaceID"
      "satisfies ip_ok ppd (py_split line) IPAddress"
      "satisfies ip_ok ppd (py_split line) PortNumber"
      "satisfies ip_ok ppd (py_split line) ProtocolNumber"
      "satisfies ip_ok ppd (py_split line) PacketsBytes"
      "satisfies ip_ok ppd (py_split line) Timestamps"
    and a: "satisfies ip_ok ppd (py_split line) Action"
    by (simp_all add: earlier_rules_def all_rules_def)
  from bad LogStatus a show ?thesis
    by (simp add: body_14 [OF n] fields_tail [OF p] rejected_literal_def)
qed

lemma first_violation:
  assumes "\<not> satisfies ip_ok ppd (py_split line) r"
    and "\<forall>r'\<in>set (earlier_rules r). satisfies ip_ok ppd (py_split line) r'"
  shows "validate_flow_log_entry ip_ok ppd line = violation_result (py_split line) r"
  unfolding validate_flow_log_entry_def violation_result_def
    first_violation_body [OF assms]
  by (cases "rejected_literal (py_split line) r") simp_all

lemma all_satisfied_body:
  assumes "\<forall>r. satisfies ip_ok ppd (py_split line) r"
  shows "validate_body ip_ok ppd line = Inr (True, Msg ''Valid entry'')"
proof -
  from assms have n: "satisfies ip_ok ppd (py_split line) FieldCount"
    and p: "satisfies ip_ok ppd (py_split line) Version"
      "satisfies ip_ok ppd (py_split line) AccountID"
      "satisfies ip_ok ppd (py_split line) InterfaceID"
      "satisfies ip_ok ppd (py_split line) IPAddress"
      "satisfies ip_ok ppd (py_split line) PortNumber"
      "satisfies ip_ok ppd (py_split line) ProtocolNumber"
      "satisfies ip_ok ppd (py_split line) PacketsBytes"
      "satisfies ip_ok ppd (py_split line) Timestamps"
    and a: "satisfies ip_ok ppd (py_split line) Action"
      "satisfies ip_ok ppd (py_split line) LogStatus"
    by blast+
  from n have "length (py_split line) = 14" by simp
  from body_14 [OF this] a show ?thesis
    by (simp add: fields_tail [OF p])
qed

lemma all_satisfied:
  assumes "\<forall>r. satisfies ip_ok ppd (py_split line) r"
  shows "validate_flow_log_entry ip_ok ppd line = (True, Msg ''Valid entry'')"
  by (simp add: validate_flow_log_entry_def all_satisfied_body [OF assms])

lemma first_violated_rule:
  assumes "\<not> satisfies ip_ok ppd fields r"
  shows "\<exists>x. \<not> satisfies ip_ok ppd fields x \<and>
     (\<forall>y\<in>set (earlier_rules x). satisfies ip_ok ppd fields y)"
proof -
  from assms have "\<exists>x\<in>set all_rules. \<not> satisfies ip_ok ppd fields x"
    by (simp add: set_all_rules) blast
  from first_failure [OF this] show ?thesis
    unfolding earlier_rules_def by blast
qed

lemma rejected_literal_field:
  assumes "length fields = 14" and "rejected_literal fields r = Some f"
  shows "f \<in> set fields \<and> py_int f = None"
  using assms by (cases r) (auto simp add: rejected_literal_def split: if_splits)

lemma fst_violation_result: "\<not> fst (violation_result fields r)"
  by (cases "rejected_literal fields r") (simp_all add: violation_result_def)

lemma accepted_satisfies:
  assumes "accepted ip_ok ppd line"
  shows "satisfies ip_ok ppd (py_split line) r"
proof (rule ccontr)
  assume "\<not> satisfies ip_ok ppd (py_split line) r"
  from first_violated_rule [OF this] obtain x where
    "\<not> satisfies ip_ok ppd (py_split line) x"
    "\<forall>y\<in>set (earlier_rules x). satisfies ip_ok ppd (py_split line) y"
    by blast
  then have "validate_flow_log_entry ip_ok ppd line = violation_result (py_split line) x"
    by (rule first_violation)
  with assms show False by (simp add: accepted_def fst_violation_result)
qed

lemma accepted_iff:
  "accepted ip_ok ppd line \<longleftrightarrow> (\<forall>r. satisfies ip_ok ppd (py_split line) r)"
  using accepted_satisfies all_satisfied by (fastforce simp add: accepted_def)

lemma accepted_fields:
  assumes "accepted ip_ok ppd line"
  shows "length (py_split line) = 14 \<and>
    (\<exists>dstport pn v. py_int (py_split line ! 6) = Some dstport \<and> 0 \<le> dstport \<and>
       dstport \<le> 65535 \<and> py_int (py_split line ! 7) = Some pn \<and> ppd pn = Some v)"
proof -
  have "satisfies ip_ok ppd (py_split line) FieldCount"
    "satisfies ip_ok ppd (py_split line) PortNumber"
    "satisfies ip_ok ppd (py_split line) ProtocolNumber"
    using assms by (rule accepted_satisfies)+
  then show ?thesis
    using port_numberD protocol_numberD by (simp; blast)
qed

lemma validate_by_fields:
  assumes "py_split line = fields" and "length fields = 14"
  shows "validate_flow_log_entry ip_ok ppd line =
     (case validate_fields ip_ok ppd fields of
        Inl e \<Rightarrow> (False, ErrorInValidation e) | Inr res \<Rightarrow> res)"
  using assms by (simp add: validate_flow_log_entry_def body_14)

lemma field_count_first: "x \<noteq> FieldCount \<Longrightarrow> FieldCount \<in> set (earlier_rules x)"
  by (cases x) (simp_all add: earlier_rules_def all_rules_def)

section \<open>Integers and lower case\<close>

lemma py_lower_char_idem: "py_lower_char (py_lower_char c) = py_lower_char c"
proof -
  have "(of_char c :: nat) < 256" by simp
  then show ?thesis
    by (auto simp add: py_lower_char_def Let_def)
qed

lemma py_lower_idem: "py_lower (py_lower s) = py_lower s"
  by (simp add: py_lower_def py_lower_char_idem)

lemma digits_ok_chars:
  "digits_ok b ds \<Longrightarrow> c \<in> set ds \<Longrightarrow> c = CHR ''_'' \<or> ascii_digit c"
  by (induction ds arbitrary: b) (auto split: if_splits)

lemma digit_value_nonneg: "ascii_digit c \<Longrightarrow> 0 \<le> digit_value c"
  by (simp add: ascii_digit_def digit_value_def Let_def)

lemma foldl_digits_nonneg:
  "\<forall>c\<in>set xs. ascii_digit c \<Longrightarrow> 0 \<le> a \<Longrightarrow>
   0 \<le> foldl (\<lambda>n c. 10 * n + digit_value c) a xs"
proof (induction xs arbitrary: a)
  case Nil
  then show ?case by simp
next
  case (Cons x xs)
  then have "0 \<le> 10 * a + digit_value x"
    using digit_value_nonneg [of x] by simp
  with Cons show ?case by simp
qed

lemma decimal_value_nonneg: "digits_ok b ds \<Longrightarrow> 0 \<le> decimal_value ds"
  unfolding decimal_value_def
  by (rule foldl_digits_nonneg) (auto dest: digits_ok_chars)

lemma int_trim_subset:
  "set (rev (dropWhile int_space (rev (dropWhile int_space s)))) \<subseteq> set s"
proof
  fix c
  assume "c \<in> set (rev (dropWhile int_space (rev (dropWhile int_space s))))"
  then have "c \<in> set (dropWhile int_space (rev (dropWhile int_space s)))" by simp
  then have "c \<in> set (rev (dropWhile int_space s))" by (rule set_dropWhileD)
  then have "c \<in> set (dropWhile int_space s)" by simp
  then show "c \<in> set s" by (rule set_dropWhileD)
qed

lemma py_int_nonneg:
  assumes "CHR ''-'' \<notin> set s" and "py_int s = Some n"
  shows "0 \<le> n"
proof -
  let ?t = "rev (dropWhile int_space (rev (dropWhile int_space s)))"
  from assms(2) obtain c r where t: "?t = c # r"
    by (cases ?t) (simp_all add: py_int_def)
  then have "c \<in> set s" using int_trim_subset [of s] by auto
  with assms(1) have "c \<noteq> CHR ''-''" by blast
  with assms(2) t show ?thesis
    by (auto simp add: py_int_def Let_def literal_ok_def decimal_value_nonneg split: if_splits)
qed

lemma digit_not_special:
  "ascii_digit c \<Longrightarrow> c \<noteq> CHR ''_'' \<and> c \<noteq> CHR ''-'' \<and> c \<noteq> CHR ''+'' \<and> \<not> int_space c"
  by (auto simp add: ascii_digit_def int_space_def Let_def)

lemma digits_ok_plain: "list_all ascii_digit s \<Longrightarrow> digits_ok b s = (b \<or> s \<noteq> [])"
  by (induction s arbitrary: b) (auto simp add: digit_not_special)

lemma dropWhile_none: "\<forall>c\<in>set s. \<not> P c \<Longrightarrow> dropWhile P s = s"
  by (cases s) simp_all

lemma py_int_plain:
  assumes "plain_number s" and "length s \<le> max_str_digits"
  shows "py_int s = Some (decimal_value s) \<and> CHR ''-'' \<notin> set s"
proof -
  from assms have ne: "s \<noteq> []" and digits: "list_all ascii_digit s"
    by (simp_all add: plain_number_def)
  from digits have no: "\<forall>c\<in>set s. \<not> int_space c" and hy: "CHR ''-'' \<notin> set s"
    using digit_not_special by (auto simp add: list_all_iff)
  then have trim: "rev (dropWhile int_space (rev (dropWhile int_space s))) = s"
    by (simp add: dropWhile_none)
  have "length (filter (\<lambda>c. c \<noteq> CHR ''_'') s) \<le> max_str_digits"
    by (rule order_trans [OF length_filter_le assms(2)])
  with digits ne have lit: "literal_ok s"
    using digits_ok_plain [of s False] by (simp add: literal_ok_def)
  from ne obtain c r where s: "s = c # r" by (cases s) auto
  with digits have "c \<noteq> CHR ''-''" "c \<noteq> CHR ''+''"
    using digit_not_special [of c] by simp_all
  with lit s have "py_int s = Some (decimal_value s)"
    unfolding py_int_def trim Let_def by simp
  with hy show ?thesis by simp
qed

section \<open>Tables as the entries of their rows\<close>

lemma foldl_put_entry_other:
  assumes "\<forall>r\<in>set rs. \<forall>v. entry r \<noteq> Some (k, v)"
  shows "foldl (put_entry entry) m rs k = m k"
  using assms
proof (induction rs arbitrary: m)
  case Nil
  then show ?case by simp
next
  case (Cons r rs)
  have "put_entry entry m r k = m k"
  proof (cases "entry r")
    case None
    then show ?thesis by (simp add: put_entry_def)
  next
    case (Some kv)
    obtain k' v' where kv: "kv = (k', v')" by (cases kv)
    with Some Cons.prems have "k' \<noteq> k" by auto
    with Some kv show ?thesis by (simp add: put_entry_def)
  qed
  with Cons show ?case by simp
qed

lemma foldl_put_entry_last:
  assumes "entry r = Some (k, v)" and "\<forall>r'\<in>set post. \<forall>v'. entry r' \<noteq> Some (k, v')"
  shows "foldl (put_entry entry) m (pre @ r # post) k = Some v"
proof -
  have "foldl (put_entry entry) m (pre @ r # post) k =
      put_entry entry (foldl (put_entry entry) m pre) r k"
    using assms(2) by (simp add: foldl_put_entry_other)
  with assms(1) show ?thesis by (simp add: put_entry_def)
qed

lemma foldl_put_entry_origin:
  assumes "foldl (put_entry entry) m rs k = Some v"
  shows "m k = Some v \<or> (\<exists>r\<in>set rs. entry r = Some (k, v))"
  using assms
proof (induction rs arbitrary: m)
  case Nil
  then show ?case by simp
next
  case (Cons r rs)
  from Cons.IH [of "put_entry entry m r"] Cons.prems
  have "put_entry entry m r k = Some v \<or> (\<exists>r\<in>set rs. entry r = Some (k, v))"
    by simp
  then show ?case
  proof
    assume a: "put_entry entry m r k = Some v"
    show ?thesis
    proof (cases "entry r")
      case None
      with a show ?thesis by (simp add: put_entry_def)
    next
      case (Some kv)
      obtain k' v' where kv: "kv = (k', v')" by (cases kv)
      with Some a show ?thesis
        by (cases "k' = k") (simp_all add: put_entry_def)
    qed
  next
    assume "\<exists>r\<in>set rs. entry r = Some (k, v)"
    then show ?thesis by auto
  qed
qed

lemma lookup_row_entry: "lookup_row m row = put_entry lookup_entry m row"
proof (cases "length row = 3")
  case False
  then show ?thesis by (simp add: lookup_row_def put_entry_def lookup_entry_def)
next
  case True
  then show ?thesis
    by (cases "py_int (py_strip (row ! 0))")
       (simp_all add: lookup_row_def put_entry_def lookup_entry_def port_ok_def Let_def)
qed

lemma lookup_rows_yielded:
  "lookup_rows m (map Inr rows) = Inr (foldl (put_entry lookup_entry) m rows)"
  by (induction rows arbitrary: m) (simp_all add: lookup_row_entry)

lemma lookup_rows_raised:
  "lookup_rows m (map Inr rows @ Inl e # rest) = Inl e"
  by (induction rows arbitrary: m) simp_all

lemma load_lookup_table_foldl:
  "load_lookup_table (Inr header # map Inr rows) =
     Inr (foldl (put_entry lookup_entry) Map.empty rows)"
  by (simp add: load_lookup_table_def lookup_rows_yielded)

lemma protocol_row_entry:
  assumes "has_cells row"
  shows "protocol_row d row = Inr (put_entry protocol_entry d row)"
proof -
  from assms obtain dc kc where
    c: "row ''Decimal'' = Some (Some dc)" "row ''Keyword'' = Some (Some kc)"
    by (auto simp add: has_cells_def split: option.splits)
  show ?thesis
  proof (cases "CHR ''-'' \<in> set (py_strip dc)")
    case True
    with c show ?thesis
      by (simp add: protocol_row_def protocol_entry_def put_entry_def)
  next
    case False
    with c show ?thesis
      by (cases "py_int (py_strip dc)")
         (simp_all add: protocol_row_def protocol_entry_def put_entry_def)
  qed
qed

lemma protocol_row_cells:
  assumes "protocol_row d row = Inr d'"
  shows "has_cells row"
  using assms
  by (auto simp add: protocol_row_def has_cells_def Let_def split: option.splits)

lemma protocol_rows_entries:
  assumes "\<forall>row\<in>set rows. row \<noteq> [] \<longrightarrow> has_cells (dict_row fieldnames row)"
  shows "protocol_rows d fieldnames (map Inr rows) =
     Inr (foldl (put_entry protocol_entry) d
            (map (dict_row fieldnames) (filter (\<lambda>r. r \<noteq> []) rows)))"
  using assms by (induction rows arbitrary: d) (simp_all add: protocol_row_entry)

lemma protocol_rows_returned:
  assumes "protocol_rows d fieldnames reader = Inr d'"
  shows "\<exists>rows. reader = map Inr rows \<and>
     (\<forall>row\<in>set rows. row \<noteq> [] \<longrightarrow> has_cells (dict_row fieldnames row))"
  using assms
proof (induction reader arbitrary: d)
  case Nil
  then show ?case by simp
next
  case (Cons item reader)
  show ?case
  proof (cases item)
    case (Inl e)
    with Cons.prems show ?thesis by simp
  next
    case (Inr row)
    show ?thesis
    proof (cases "row = []")
      case True
      with Cons.prems Inr have "protocol_rows d fieldnames reader = Inr d'" by simp
      from Cons.IH [OF this] obtain rows where
        "reader = map Inr rows"
        "\<forall>r\<in>set rows. r \<noteq> [] \<longrightarrow> has_cells (dict_row fieldnames r)"
        by blast
      with Inr True have "item # reader = map Inr (row # rows) \<and>
          (\<forall>r\<in>set (row # rows). r \<noteq> [] \<longrightarrow> has_cells (dict_row fieldnames r))"
        by simp
      then show ?thesis by (rule exI [of _ "row # rows"])
    next
      case False
      with Cons.prems Inr obtain d1 where
        d1: "protocol_row d (dict_row fieldnames row) = Inr d1"
            "protocol_rows d1 fieldnames reader = Inr d'"
        by (cases "protocol_row d (dict_row fieldnames row)") simp_all
      from Cons.IH [OF d1(2)] obtain rows where
        "reader = map Inr rows"
        "\<forall>r\<in>set rows. r \<noteq> [] \<longrightarrow> has_cells (dict_row fieldnames r)"
        by blast
      with Inr protocol_row_cells [OF d1(1)] have "item # reader = map Inr (row # rows) \<and>
          (\<forall>r\<in>set (row # rows). r \<noteq> [] \<longrightarrow> has_cells (dict_row fieldnames r))"
        by simp
      then show ?thesis by (rule exI [of _ "row # rows"])
    qed
  qed
qed

lemma build_returned:
  assumes "build_port_protocol_dict d (Inr fieldnames # reader) = Inr d'"
  shows "\<exists>rows. reader = map Inr rows \<and>
     (\<forall>row\<in>set rows. row \<noteq> [] \<longrightarrow> has_cells (dict_row fieldnames row)) \<and>
     d' = foldl (put_entry protocol_entry) d
            (map (dict_row fieldnames) (filter (\<lambda>r. r \<noteq> []) rows))"
proof -
  from assms have r: "protocol_rows d fieldnames reader = Inr d'"
    by (simp add: build_port_protocol_dict_def)
  from protocol_rows_returned [OF this] obtain rows where
    rows: "reader = map Inr rows"
      "\<forall>row\<in>set rows. row \<noteq> [] \<longrightarrow> has_cells (dict_row fieldnames row)"
    by blast
  with r protocol_rows_entries [OF rows(2), of d] show ?thesis by auto
qed

lemma protocol_entry_plain:
  assumes "row ''Decimal'' = Some (Some dc)" and "row ''Keyword'' = Some (Some kc)"
    and "plain_number (py_strip dc)" and "length (py_strip dc) \<le> max_str_digits"
  shows "protocol_entry row = Some (decimal_value (py_strip dc), py_lower (py_strip kc))"
  using assms py_int_plain [OF assms(3,4)] by (simp add: protocol_entry_def)

lemma protocol_entry_sound:
  assumes "protocol_entry row = Some (k, v)"
  shows "0 \<le> k \<and> py_lower v = v"
proof -
  from assms obtain dc kc where
    c: "row ''Decimal'' = Some (Some dc)" "row ''Keyword'' = Some (Some kc)"
    by (auto simp add: protocol_entry_def split: option.splits)
  with assms have "CHR ''-'' \<notin> set (py_strip dc)" "py_int (py_strip dc) = Some k"
    "v = py_lower (py_strip kc)"
    by (auto simp add: protocol_entry_def split: if_splits)
  then show ?thesis
    using py_int_nonneg by (simp add: py_lower_idem)
qed

lemma build_inv:
  assumes "build_port_protocol_dict d reader = Inr d'" and "d' k = Some v"
  shows "d k = Some v \<or> (0 \<le> k \<and> py_lower v = v)"
proof (cases reader)
  case Nil
  with assms show ?thesis by (simp add: build_port_protocol_dict_def)
next
  case (Cons item rest)
  show ?thesis
  proof (cases item)
    case (Inl e)
    with Cons assms(1) show ?thesis by (simp add: build_port_protocol_dict_def)
  next
    case (Inr fieldnames)
    with Cons assms(1) build_returned [of d fieldnames rest d'] obtain rows where
      "d' = foldl (put_entry protocol_entry) d
            (map (dict_row fieldnames) (filter (\<lambda>r. r \<noteq> []) rows))"
      by blast
    with assms(2) foldl_put_entry_origin
      [of protocol_entry d "map (dict_row fieldnames) (filter (\<lambda>r. r \<noteq> []) rows)" k v]
    have "d k = Some v \<or> (\<exists>r. protocol_entry r = Some (k, v))" by blast
    with protocol_entry_sound show ?thesis by blast
  qed
qed

section \<open>One record, and the whole file\<close>

lemma process_line_rejected:
  "\<not> accepted ip_ok ppd line \<Longrightarrow> process_line ip_ok ppd lookup_table agg line = Inr agg"
  by (simp add: process_line_def accepted_def)

lemma process_line_accepted:
  assumes "accepted ip_ok ppd line"
  shows "\<exists>dstport pn v.
     py_int (py_split line ! 6) = Some dstport \<and> py_int (py_split line ! 7) = Some pn \<and>
     ppd pn = Some v \<and>
     process_line ip_ok ppd lookup_table agg line =
       Inr (count_record lookup_table agg dstport (protocol_name ppd pn))"
proof -
  from accepted_fields [OF assms] obtain dstport pn v where
    f: "length (py_split line) = 14" "py_int (py_split line ! 6) = Some dstport"
       "py_int (py_split line ! 7) = Some pn" "ppd pn = Some v"
    by blast
  with assms have "process_line ip_ok ppd lookup_table agg line =
       Inr (count_record lookup_table agg dstport (protocol_name ppd pn))"
    by (simp add: process_line_def accepted_def)
  with f show ?thesis by blast
qed

lemma sum_counts_update:
  assumes "finite (dom m)"
  shows "sum_counts (m(k \<mapsto> v)) = sum_counts m - (case m k of None \<Rightarrow> 0 | Some c \<Rightarrow> c) + v"
proof -
  have "sum_counts (m(k \<mapsto> v)) = (\<Sum>x\<in>insert k (dom m). the ((m(k \<mapsto> v)) x))"
    by (simp add: sum_counts_def)
  also have "\<dots> = v + (\<Sum>x\<in>dom m - {k}. the ((m(k \<mapsto> v)) x))"
    using assms by (simp add: sum.insert_remove)
  also have "(\<Sum>x\<in>dom m - {k}. the ((m(k \<mapsto> v)) x)) = (\<Sum>x\<in>dom m - {k}. the (m x))"
    by (rule sum.cong) auto
  finally have new: "sum_counts (m(k \<mapsto> v)) = v + (\<Sum>x\<in>dom m - {k}. the (m x))" .
  show ?thesis
  proof (cases "m k")
    case None
    then have "dom m - {k} = dom m" by auto
    with new None show ?thesis by (simp add: sum_counts_def)
  next
    case (Some c)
    then have "k \<in> dom m" by auto
    with assms have "sum_counts m = the (m k) + (\<Sum>x\<in>dom m - {k}. the (m x))"
      unfolding sum_counts_def by (rule sum.remove)
    with new Some show ?thesis by simp
  qed
qed

lemma count_record_counted:
  assumes "counted agg n"
  shows "counted (count_record lookup_table agg dstport protocol) (n + 1)"
proof -
  obtain tc ppc where agg: "agg = (tc, ppc)" by (cases agg)
  define tag where "tag = (case lookup_table (dstport, protocol) of
      None \<Rightarrow> ''untagged'' | Some t \<Rightarrow> t)"
  define c1 where "c1 = (case tc tag of None \<Rightarrow> 0 | Some c \<Rightarrow> c)"
  define c2 where "c2 = (case ppc (dstport, protocol) of None \<Rightarrow> 0 | Some c \<Rightarrow> c)"
  have res: "count_record lookup_table agg dstport protocol =
      (tc(tag \<mapsto> c1 + 1), ppc((dstport, protocol) \<mapsto> c2 + 1))"
    by (cases "tc tag") (simp_all add: count_record_def agg tag_def c1_def c2_def Let_def)
  from assms agg have fin: "finite (dom tc)" "finite (dom ppc)"
    and tot: "sum_counts tc = n" "sum_counts ppc = n"
    and pos1: "\<And>t c. tc t = Some c \<Longrightarrow> 0 < c"
    and pos2: "\<And>k c. ppc k = Some c \<Longrightarrow> 0 < c"
    by (auto simp add: counted_def)
  have "0 \<le> c1" using pos1 [of tag] by (cases "tc tag") (simp_all add: c1_def)
  moreover have "0 \<le> c2"
    using pos2 [of "(dstport, protocol)"] by (cases "ppc (dstport, protocol)") (simp_all add: c2_def)
  moreover have "sum_counts (tc(tag \<mapsto> c1 + 1)) = n + 1"
    using sum_counts_update [OF fin(1), of tag "c1 + 1"] tot(1) by (simp add: c1_def)
  moreover have "sum_counts (ppc((dstport, protocol) \<mapsto> c2 + 1)) = n + 1"
    using sum_counts_update [OF fin(2), of "(dstport, protocol)" "c2 + 1"] tot(2) by (simp add: c2_def)
  ultimately show ?thesis
    unfolding res counted_def using fin pos1 pos2 by auto
qed

lemma process_lines_counted:
  assumes "counted agg n"
  shows "\<exists>agg'. process_lines ip_ok ppd lookup_table agg lines = Inr agg' \<and>
     counted agg' (n + int (length (filter (accepted ip_ok ppd) lines)))"
  using assms
proof (induction lines arbitrary: agg n)
  case Nil
  then show ?case by simp
next
  case (Cons line lines)
  show ?case
  proof (cases "accepted ip_ok ppd line")
    case False
    with Cons.IH [OF Cons.prems] show ?thesis
      by (simp add: process_line_rejected)
  next
    case True
    from process_line_accepted [OF True, of lookup_table agg] obtain dstport pn where
      step: "process_line ip_ok ppd lookup_table agg line =
        Inr (count_record lookup_table agg dstport (protocol_name ppd pn))"
      by blast
    from Cons.IH [OF count_record_counted
        [OF Cons.prems, of lookup_table dstport "protocol_name ppd pn"]]
    obtain agg' where
      "process_lines ip_ok ppd lookup_table
         (count_record lookup_table agg dstport (protocol_name ppd pn)) lines = Inr agg'"
      "counted agg' (n + 1 + int (length (filter (accepted ip_ok ppd) lines)))"
      by blast
    moreover have "n + 1 + int (length (filter (accepted ip_ok ppd) lines)) =
        n + int (length (filter (accepted ip_ok ppd) (line # lines)))"
      using True by simp
    ultimately show ?thesis using step by simp
  qed
qed

section \<open>Claims about the record validator\<close>

text \<open>
  C1 (amended). Let a line split on whitespace into the fields \<open>py_split line\<close>.
  If the fields satisfy all eleven rules (there are 14 of them, and rules 2 to 11 hold),
  the validator returns \<open>(True, "Valid entry")\<close>. If the fields violate exactly one rule
  \<open>r\<close>, the validator returns Invalid: with the reason string of \<open>r\<close>, unless \<open>int\<close>
  rejects a field that the validator converts while it checks \<open>r\<close> (a port, the
  protocol number, a count, or an all-digit timestamp that is no decimal number); then
  the reason is the handler's message, made from that \<open>ValueError\<close>.
\<close>

theorem validate_flow_log_entry_rules:
  "((\<forall>r. satisfies ip_ok ppd (py_split line) r) \<longrightarrow>
      validate_flow_log_entry ip_ok ppd line = (True, Msg ''Valid entry'')) \<and>
   (\<not> satisfies ip_ok ppd (py_split line) r \<and>
    (\<forall>r'. r' \<noteq> r \<longrightarrow> satisfies ip_ok ppd (py_split line) r') \<longrightarrow>
      validate_flow_log_entry ip_ok ppd line =
        (case rejected_literal (py_split line) r of
           None \<Rightarrow> (False, Msg (rule_reason r))
         | Some f \<Rightarrow> (False, ErrorInValidation (ValueError f))))"
proof (intro conjI impI)
  assume "\<forall>r. satisfies ip_ok ppd (py_split line) r"
  then show "validate_flow_log_entry ip_ok ppd line = (True, Msg ''Valid entry'')"
    by (rule all_satisfied)
next
  assume a: "\<not> satisfies ip_ok ppd (py_split line) r \<and>
    (\<forall>r'. r' \<noteq> r \<longrightarrow> satisfies ip_ok ppd (py_split line) r')"
  have "r' \<noteq> r" if "r' \<in> set (earlier_rules r)" for r'
    using that set_takeWhileD [of r' "\<lambda>x. x \<noteq> r" all_rules]
    by (simp add: earlier_rules_def)
  with a have "\<forall>r'\<in>set (earlier_rules r). satisfies ip_ok ppd (py_split line) r'"
    by blast
  with a have "validate_flow_log_entry ip_ok ppd line = violation_result (py_split line) r"
    by (simp add: first_violation)
  then show "validate_flow_log_entry ip_ok ppd line =
        (case rejected_literal (py_split line) r of
           None \<Rightarrow> (False, Msg (rule_reason r))
         | Some f \<Rightarrow> (False, ErrorInValidation (ValueError f)))"
    by (simp add: violation_result_def)
qed

text \<open>
  C1, witness: a line of 14 fields that satisfies every rule is valid, and the same
  line with the destination port 70000 violates the port rule alone and is rejected
  with that rule's reason.
\<close>

theorem validate_flow_log_entry_rules_witness:
  "validate_flow_log_entry ipv4_ok [6 \<mapsto> ''tcp'']
     ''2 123456789012 eni-1234abcd 10.0.0.1 10.0.0.2 1024 443 6 10 500 100 200 ACCEPT OK''
     = (True, Msg ''Valid entry'') \<and>
   validate_flow_log_entry ipv4_ok [6 \<mapsto> ''tcp'']
     ''2 123456789012 eni-1234abcd 10.0.0.1 10.0.0.2 1024 70000 6 10 500 100 200 ACCEPT OK''
     = (False, Msg ''Invalid port number'')"
proof -
  let ?good = "''2 123456789012 eni-1234abcd 10.0.0.1 10.0.0.2 1024 443 6 10 500 100 200 ACCEPT OK''"
  let ?bad = "''2 123456789012 eni-1234abcd 10.0.0.1 10.0.0.2 1024 70000 6 10 500 100 200 ACCEPT OK''"
  have "list_all (satisfies ipv4_ok [6 \<mapsto> ''tcp''] (py_split ?good)) all_rules"
    by code_simp
  then have good: "\<forall>r. satisfies ipv4_ok [6 \<mapsto> ''tcp''] (py_split ?good) r"
    by (simp add: list_all_iff set_all_rules)
  have "list_all (satisfies ipv4_ok [6 \<mapsto> ''tcp''] (py_split ?bad))
          (removeAll PortNumber all_rules)"
    by code_simp
  then have others: "\<forall>r'. r' \<noteq> PortNumber \<longrightarrow>
      satisfies ipv4_ok [6 \<mapsto> ''tcp''] (py_split ?bad) r'"
    by (simp add: list_all_iff set_all_rules)
  have bad: "\<not> satisfies ipv4_ok [6 \<mapsto> ''tcp''] (py_split ?bad) PortNumber"
    by code_simp
  have none: "rejected_literal (py_split ?bad) PortNumber = None"
    by code_simp
  from validate_flow_log_entry_rules [of ipv4_ok "[6 \<mapsto> ''tcp'']" ?good PortNumber] good
  have 1: "validate_flow_log_entry ipv4_ok [6 \<mapsto> ''tcp''] ?good = (True, Msg ''Valid entry'')"
    by blast
  from validate_flow_log_entry_rules [of ipv4_ok "[6 \<mapsto> ''tcp'']" ?bad PortNumber] bad others
  have "validate_flow_log_entry ipv4_ok [6 \<mapsto> ''tcp''] ?bad =
        (case rejected_literal (py_split ?bad) PortNumber of
           None \<Rightarrow> (False, Msg (rule_reason PortNumber))
         | Some f \<Rightarrow> (False, ErrorInValidation (ValueError f)))"
    by blast
  with none have 2: "validate_flow_log_entry ipv4_ok [6 \<mapsto> ''tcp''] ?bad =
      (False, Msg ''Invalid port number'')"
    by simp
  from 1 2 show ?thesis by (rule conjI)
qed

text \<open>
  C1, counterexample to the claim as it is stated: the line below violates the port
  rule alone (its source port is \<open>abc\<close>), and the reason returned is not
  \<open>"Invalid port number"\<close> but the handler's message: \<open>int('abc')\<close> raises inside the
  \<open>try\<close>.
\<close>

theorem validate_flow_log_entry_rules_counterexample:
  "\<not> satisfies ipv4_ok [6 \<mapsto> ''tcp'']
        (py_split ''2 123456789012 eni-1234abcd 10.0.0.1 10.0.0.2 abc 443 6 10 500 100 200 ACCEPT OK'')
        PortNumber \<and>
   list_all (satisfies ipv4_ok [6 \<mapsto> ''tcp'']
        (py_split ''2 123456789012 eni-1234abcd 10.0.0.1 10.0.0.2 abc 443 6 10 500 100 200 ACCEPT OK''))
      (removeAll PortNumber all_rules) \<and>
   validate_flow_log_entry ipv4_ok [6 \<mapsto> ''tcp'']
      ''2 123456789012 eni-1234abcd 10.0.0.1 10.0.0.2 abc 443 6 10 500 100 200 ACCEPT OK''
     = (False, ErrorInValidation (ValueError ''abc'')) \<and>
   rule_reason PortNumber = ''Invalid port number''"
proof -
  let ?line = "''2 123456789012 eni-1234abcd 10.0.0.1 10.0.0.2 abc 443 6 10 500 100 200 ACCEPT OK''"
  let ?fields = "[''2'', ''123456789012'', ''eni-1234abcd'', ''10.0.0.1'', ''10.0.0.2'', ''abc'',
       ''443'', ''6'', ''10'', ''500'', ''100'', ''200'', ''ACCEPT'', ''OK'']"
  have fields: "py_split ?line = ?fields"
    by code_simp
  have "validate_fields ipv4_ok [6 \<mapsto> ''tcp''] ?fields = Inl (ValueError ''abc'')"
    by code_simp
  then have "validate_flow_log_entry ipv4_ok [6 \<mapsto> ''tcp''] ?line =
      (False, ErrorInValidation (ValueError ''abc''))"
    by (simp add: validate_by_fields [OF fields])
  moreover have "\<not> satisfies ipv4_ok [6 \<mapsto> ''tcp''] ?fields PortNumber"
    by code_simp
  moreover have "list_all (satisfies ipv4_ok [6 \<mapsto> ''tcp''] ?fields)
      (removeAll PortNumber all_rules)"
    by code_simp
  ultimately show ?thesis
    unfolding fields by simp
qed

text \<open>
  C3 (amended). For a line of 14 fields that passes the rules on the version, the
  account id, the interface id and the addresses, and in which the source or the
  destination port does not parse as an integer in [0, 65535], the validator returns
  Invalid. The reason is \<open>"Invalid port number"\<close> when the source port is an integer
  outside the range, or is in the range and the destination port is an integer outside
  it. When \<open>int\<close> rejects the source port, or the source port is in the range and
  \<open>int\<close> rejects the destination port, the reason is the handler's message with that
  \<open>ValueError\<close>.
\<close>

theorem port_number_reason:
  assumes "length (py_split line) = 14"
    and "satisfies ip_ok ppd (py_split line) Version"
    and "satisfies ip_ok ppd (py_split line) AccountID"
    and "satisfies ip_ok ppd (py_split line) InterfaceID"
    and "satisfies ip_ok ppd (py_split line) IPAddress"
    and "\<not> (port_ok (py_split line ! 5) \<and> port_ok (py_split line ! 6))"
  shows "validate_flow_log_entry ip_ok ppd line =
     (if py_int (py_split line ! 5) = None
        then (False, ErrorInValidation (ValueError (py_split line ! 5)))
      else if port_ok (py_split line ! 5) \<and> py_int (py_split line ! 6) = None
        then (False, ErrorInValidation (ValueError (py_split line ! 6)))
      else (False, Msg ''Invalid port number''))"
proof -
  from assms(6) have "\<not> satisfies ip_ok ppd (py_split line) PortNumber" by simp
  from fields_port_number [OF assms(2-5) this] show ?thesis
    by (simp add: validate_flow_log_entry_def body_14 [OF assms(1)])
qed

text \<open>
  C3, witness: the source port \<open>-1\<close> is an integer outside the range.
\<close>

theorem port_number_reason_witness:
  "validate_flow_log_entry ipv4_ok [6 \<mapsto> ''tcp'']
     ''2 123456789012 eni-1234abcd 10.0.0.1 10.0.0.2 -1 443 6 10 500 100 200 ACCEPT OK''
     = (False, Msg ''Invalid port number'')"
proof -
  let ?line = "''2 123456789012 eni-1234abcd 10.0.0.1 10.0.0.2 -1 443 6 10 500 100 200 ACCEPT OK''"
  have fields: "py_split ?line =
      [''2'', ''123456789012'', ''eni-1234abcd'', ''10.0.0.1'', ''10.0.0.2'', ''-1'', ''443'',
       ''6'', ''10'', ''500'', ''100'', ''200'', ''ACCEPT'', ''OK'']"
    by code_simp
  have 1: "length (py_split ?line) = 14" unfolding fields by simp
  have 2: "satisfies ipv4_ok [6 \<mapsto> ''tcp''] (py_split ?line) Version"
    unfolding fields by code_simp
  have 3: "satisfies ipv4_ok [6 \<mapsto> ''tcp''] (py_split ?line) AccountID"
    unfolding fields by code_simp
  have 4: "satisfies ipv4_ok [6 \<mapsto> ''tcp''] (py_split ?line) InterfaceID"
    unfolding fields by code_simp
  have 5: "satisfies ipv4_ok [6 \<mapsto> ''tcp''] (py_split ?line) IPAddress"
    unfolding fields by code_simp
  have 6: "\<not> (port_ok (py_split ?line ! 5) \<and> port_ok (py_split ?line ! 6))"
    unfolding fields by code_simp
  have 7: "py_int (py_split ?line ! 5) = Some (- 1)"
    unfolding fields by code_simp
  have 8: "\<not> port_ok (py_split ?line ! 5)"
    unfolding fields by code_simp
  from port_number_reason [OF 1 2 3 4 5 6] 7 8 show ?thesis by simp
qed

text \<open>
  C3, counterexample to the claim as it is stated: the destination port \<open>http\<close> does
  not parse as an integer, the earlier rules pass, and the reason is the handler's
  message.
\<close>

theorem port_number_reason_counterexample:
  "length (py_split
      ''2 123456789012 eni-1234abcd 10.0.0.1 10.0.0.2 1024 http 6 10 500 100 200 ACCEPT OK'') = 14 \<and>
   list_all (satisfies ipv4_ok [6 \<mapsto> ''tcp''] (py_split
      ''2 123456789012 eni-1234abcd 10.0.0.1 10.0.0.2 1024 http 6 10 500 100 200 ACCEPT OK''))
      [Version, AccountID, InterfaceID, IPAddress] \<and>
   \<not> port_ok (py_split
      ''2 123456789012 eni-1234abcd 10.0.0.1 10.0.0.2 1024 http 6 10 500 100 200 ACCEPT OK'' ! 6) \<and>
   validate_flow_log_entry ipv4_ok [6 \<mapsto> ''tcp'']
      ''2 123456789012 eni-1234abcd 10.0.0.1 10.0.0.2 1024 http 6 10 500 100 200 ACCEPT OK''
     = (False, ErrorInValidation (ValueError ''http''))"
proof -
  let ?line = "''2 123456789012 eni-1234abcd 10.0.0.1 10.0.0.2 1024 http 6 10 500 100 200 ACCEPT OK''"
  let ?fields = "[''2'', ''123456789012'', ''eni-1234abcd'', ''10.0.0.1'', ''10.0.0.2'', ''1024'',
       ''http'', ''6'', ''10'', ''500'', ''100'', ''200'', ''ACCEPT'', ''OK'']"
  have fields: "py_split ?line = ?fields"
    by code_simp
  have "validate_fields ipv4_ok [6 \<mapsto> ''tcp''] ?fields = Inl (ValueError ''http'')"
    by code_simp
  then have "validate_flow_log_entry ipv4_ok [6 \<mapsto> ''tcp''] ?line =
      (False, ErrorInValidation (ValueError ''http''))"
    by (simp add: validate_by_fields [OF fields])
  moreover have "list_all (satisfies ipv4_ok [6 \<mapsto> ''tcp''] ?fields)
      [Version, AccountID, InterfaceID, IPAddress]"
    by code_simp
  moreover have "\<not> port_ok (?fields ! 6)"
    by code_simp
  ultimately show ?thesis
    unfolding fields by simp
qed

text \<open>
  C4 (amended). For a line of 14 fields that passes the rules up to the protocol
  number, and in which the packet count or the byte count does not parse as a
  non-negative integer, the validator returns Invalid. The reason is
  \<open>"Invalid packets or bytes count"\<close> when the packet count is a negative integer, or is
  non-negative and the byte count is a negative integer. When \<open>int\<close> rejects the
  packet count, or the packet count is non-negative and \<open>int\<close> rejects the byte count,
  the reason is the handler's message with that \<open>ValueError\<close>.
\<close>

theorem packets_bytes_reason:
  assumes "length (py_split line) = 14"
    and "satisfies ip_ok ppd (py_split line) Version"
    and "satisfies ip_ok ppd (py_split line) AccountID"
    and "satisfies ip_ok ppd (py_split line) InterfaceID"
    and "satisfies ip_ok ppd (py_split line) IPAddress"
    and "satisfies ip_ok ppd (py_split line) PortNumber"
    and "satisfies ip_ok ppd (py_split line) ProtocolNumber"
    and "\<not> (count_ok (py_split line ! 8) \<and> count_ok (py_split line ! 9))"
  shows "validate_flow_log_entry ip_ok ppd line =
     (if py_int (py_split line ! 8) = None
        then (False, ErrorInValidation (ValueError (py_split line ! 8)))
      else if count_ok (py_split line ! 8) \<and> py_int (py_split line ! 9) = None
        then (False, ErrorInValidation (ValueError (py_split line ! 9)))
      else (False, Msg ''Invalid packets or bytes count''))"
proof -
  from assms(8) have "\<not> satisfies ip_ok ppd (py_split line) PacketsBytes" by simp
  from fields_packets_bytes [OF assms(2-7) this] show ?thesis
    by (simp add: validate_flow_log_entry_def body_14 [OF assms(1)])
qed

text \<open>
  C4, witness: the byte count \<open>-500\<close> is a negative integer.
\<close>

theorem packets_bytes_reason_witness:
  "validate_flow_log_entry ipv4_ok [6 \<mapsto> ''tcp'']
     ''2 123456789012 eni-1234abcd 10.0.0.1 10.0.0.2 1024 443 6 10 -500 100 200 ACCEPT OK''
     = (False, Msg ''Invalid packets or bytes count'')"
proof -
  let ?line = "''2 123456789012 eni-1234abcd 10.0.0.1 10.0.0.2 1024 443 6 10 -500 100 200 ACCEPT OK''"
  have fields: "py_split ?line =
      [''2'', ''123456789012'', ''eni-1234abcd'', ''10.0.0.1'', ''10.0.0.2'', ''1024'', ''443'',
       ''6'', ''10'', ''-500'', ''100'', ''200'', ''ACCEPT'', ''OK'']"
    by code_simp
  have 1: "length (py_split ?line) = 14" unfolding fields by simp
  have 2: "satisfies ipv4_ok [6 \<mapsto> ''tcp''] (py_split ?line) Version"
    unfolding fields by code_simp
  have 3: "satisfies ipv4_ok [6 \<mapsto> ''tcp''] (py_split ?line) AccountID"
    unfolding fields by code_simp
  have 4: "satisfies ipv4_ok [6 \<mapsto> ''tcp''] (py_split ?line) InterfaceID"
    unfolding fields by code_simp
  have 5: "satisfies ipv4_ok [6 \<mapsto> ''tcp''] (py_split ?line) IPAddress"
    unfolding fields by code_simp
  have 6: "satisfies ipv4_ok [6 \<mapsto> ''tcp''] (py_split ?line) PortNumber"
    unfolding fields by code_simp
  have 7: "satisfies ipv4_ok [6 \<mapsto> ''tcp''] (py_split ?line) ProtocolNumber"
    unfolding fields by code_simp
  have 8: "\<not> (count_ok (py_split ?line ! 8) \<and> count_ok (py_split ?line ! 9))"
    unfolding fields by code_simp
  have 9: "py_int (py_split ?line ! 8) = Some 10" "py_int (py_split ?line ! 9) = Some (- 500)"
    unfolding fields by code_simp+
  from packets_bytes_reason [OF 1 2 3 4 5 6 7 8] 9 show ?thesis by simp
qed

text \<open>
  C4, counterexample to the claim as it is stated: the packet count \<open>ten\<close> does not
  parse as an integer, the earlier rules pass, and the reason is the handler's
  message.
\<close>

theorem packets_bytes_reason_counterexample:
  "length (py_split
      ''2 123456789012 eni-1234abcd 10.0.0.1 10.0.0.2 1024 443 6 ten 500 100 200 ACCEPT OK'') = 14 \<and>
   list_all (satisfies ipv4_ok [6 \<mapsto> ''tcp''] (py_split
      ''2 123456789012 eni-1234abcd 10.0.0.1 10.0.0.2 1024 443 6 ten 500 100 200 ACCEPT OK''))
      [Version, AccountID, InterfaceID, IPAddress, PortNumber, ProtocolNumber] \<and>
   \<not> count_ok (py_split
      ''2 123456789012 eni-1234abcd 10.0.0.1 10.0.0.2 1024 443 6 ten 500 100 200 ACCEPT OK'' ! 8) \<and>
   validate_flow_log_entry ipv4_ok [6 \<mapsto> ''tcp'']
      ''2 123456789012 eni-1234abcd 10.0.0.1 10.0.0.2 1024 443 6 ten 500 100 200 ACCEPT OK''
     = (False, ErrorInValidation (ValueError ''ten''))"
proof -
  let ?line = "''2 123456789012 eni-1234abcd 10.0.0.1 10.0.0.2 1024 443 6 ten 500 100 200 ACCEPT OK''"
  let ?fields = "[''2'', ''123456789012'', ''eni-1234abcd'', ''10.0.0.1'', ''10.0.0.2'', ''1024'',
       ''443'', ''6'', ''ten'', ''500'', ''100'', ''200'', ''ACCEPT'', ''OK'']"
  have fields: "py_split ?line = ?fields"
    by code_simp
  have "validate_fields ipv4_ok [6 \<mapsto> ''tcp''] ?fields = Inl (ValueError ''ten'')"
    by code_simp
  then have "validate_flow_log_entry ipv4_ok [6 \<mapsto> ''tcp''] ?line =
      (False, ErrorInValidation (ValueError ''ten''))"
    by (simp add: validate_by_fields [OF fields])
  moreover have "list_all (satisfies ipv4_ok [6 \<mapsto> ''tcp''] ?fields)
      [Version, AccountID, InterfaceID, IPAddress, PortNumber, ProtocolNumber]"
    by code_simp
  moreover have "\<not> count_ok (?fields ! 8)"
    by code_simp
  ultimately show ?thesis
    unfolding fields by simp
qed

text \<open>
  C5. The validator returns a pair for every input, whatever the body of its \<open>try\<close>
  does. When the body raises \<open>e\<close>, the result is Invalid with the handler's message made
  from \<open>e\<close>; the only exception the body can raise is the \<open>ValueError\<close> of \<open>int\<close> on
  one of the fields of the line. When the body returns, the result is what it returns:
  \<open>(True, "Valid entry")\<close>, or \<open>False\<close> with the reason string of one of the rules.
\<close>

theorem validate_flow_log_entry_total:
  "(case validate_body ip_ok ppd entry of
      Inl e \<Rightarrow>
        validate_flow_log_entry ip_ok ppd entry = (False, ErrorInValidation e) \<and>
        (\<exists>f\<in>set (py_split entry). e = ValueError f \<and> py_int f = None)
    | Inr res \<Rightarrow>
        validate_flow_log_entry ip_ok ppd entry = res \<and>
        (res = (True, Msg ''Valid entry'') \<or>
         (\<exists>r\<in>set all_rules. res = (False, Msg (rule_reason r)))))"
proof (cases "\<forall>r. satisfies ip_ok ppd (py_split entry) r")
  case True
  then show ?thesis
    by (simp add: validate_flow_log_entry_def all_satisfied_body)
next
  case False
  then obtain r where "\<not> satisfies ip_ok ppd (py_split entry) r" by blast
  from first_violated_rule [OF this] obtain x where
    x: "\<not> satisfies ip_ok ppd (py_split entry) x"
       "\<forall>y\<in>set (earlier_rules x). satisfies ip_ok ppd (py_split entry) y"
    by blast
  note body = first_violation_body [OF x]
  show ?thesis
  proof (cases "rejected_literal (py_split entry) x")
    case None
    with body show ?thesis
      by (auto simp add: validate_flow_log_entry_def set_all_rules)
  next
    case (Some f)
    then have "x \<noteq> FieldCount" by (auto simp add: rejected_literal_def)
    with x(2) have "length (py_split entry) = 14"
      using field_count_first by fastforce
    from rejected_literal_field [OF this Some] body Some show ?thesis
      by (simp add: validate_flow_log_entry_def)
  qed
qed

section \<open>Claims about the table loaders\<close>

text \<open>
  C6 (amended). \<open>lookup_entry\<close> is the entry a data row stands for: a row with exactly
  3 columns whose first column, trimmed, parses as an integer in [0, 65535] stands for
  (port, lowercase(trimmed protocol)) \<open>\<mapsto>\<close> lowercase(trimmed tag), any other row for none.
  When \<open>csv.reader\<close> yields the header and every data row, the loader returns a table,
  whatever the rows are. The table holds the entry of every row that no later row with
  the same key follows, so of two rows with the same key the later one is kept. Every
  entry of the table is the entry of some data row, and a row with another number of
  columns, a port that is no integer or a port outside [0, 65535] leaves the table as
  it is. When \<open>csv.reader\<close> raises while it reads a data row, the loader raises the same
  exception and returns no table.
\<close>

theorem load_lookup_table_entries:
  "(\<exists>tbl. load_lookup_table (Inr header # map Inr rows) = Inr tbl \<and>
     (\<forall>pre row post key tag.
        rows = pre @ row # post \<and> lookup_entry row = Some (key, tag) \<and>
        (\<forall>r\<in>set post. \<forall>t. lookup_entry r \<noteq> Some (key, t)) \<longrightarrow>
        tbl key = Some tag) \<and>
     (\<forall>key tag. tbl key = Some tag \<longrightarrow> (\<exists>row\<in>set rows. lookup_entry row = Some (key, tag)))) \<and>
   (\<forall>m row. lookup_entry row = None \<longrightarrow> lookup_row m row = m) \<and>
   load_lookup_table (Inr header # map Inr rows @ Inl e # rest) = Inl e"
proof -
  let ?tbl = "foldl (put_entry lookup_entry) Map.empty rows"
  have 1: "load_lookup_table (Inr header # map Inr rows) = Inr ?tbl"
    by (rule load_lookup_table_foldl)
  have 2: "?tbl key = Some tag"
    if "rows = pre @ row # post" "lookup_entry row = Some (key, tag)"
       "\<forall>r\<in>set post. \<forall>t. lookup_entry r \<noteq> Some (key, t)" for pre row post key tag
    unfolding that(1) using that(2,3) by (rule foldl_put_entry_last)
  have 3: "\<exists>row\<in>set rows. lookup_entry row = Some (key, tag)"
    if "?tbl key = Some tag" for key tag
    using foldl_put_entry_origin [OF that] by simp
  have 4: "lookup_row m row = m" if "lookup_entry row = None" for m row
    using that by (simp add: lookup_row_entry put_entry_def)
  have 5: "load_lookup_table (Inr header # map Inr rows @ Inl e # rest) = Inl e"
    by (simp add: load_lookup_table_def lookup_rows_raised)
  from 1 2 3 have "\<exists>tbl. load_lookup_table (Inr header # map Inr rows) = Inr tbl \<and>
     (\<forall>pre row post key tag.
        rows = pre @ row # post \<and> lookup_entry row = Some (key, tag) \<and>
        (\<forall>r\<in>set post. \<forall>t. lookup_entry r \<noteq> Some (key, t)) \<longrightarrow>
        tbl key = Some tag) \<and>
     (\<forall>key tag. tbl key = Some tag \<longrightarrow> (\<exists>row\<in>set rows. lookup_entry row = Some (key, tag)))"
    by blast
  with 4 5 show ?thesis by blast
qed

text \<open>
  C6, witness: a file with two rows for the key (443, tcp), and rows with a port that
  is not a number, a port out of range and a missing column between them; the table
  holds the tag of the later row.
\<close>

theorem load_lookup_table_entries_witness:
  "\<exists>tbl. load_lookup_table
       [Inr [''dstport'', ''protocol'', ''tag''], Inr [''443'', ''TCP'', ''Web''],
        Inr [''x'', ''tcp'', ''bad''], Inr [''70000'', ''tcp'', ''far''], Inr [''25'', ''tcp''],
        Inr ['' 443 '', '' tcp'', ''HTTPS '']] = Inr tbl \<and>
     tbl (443, ''tcp'') = Some ''https''"
proof -
  let ?header = "[''dstport'', ''protocol'', ''tag'']"
  let ?pre = "[[''443'', ''TCP'', ''Web''], [''x'', ''tcp'', ''bad''],
        [''70000'', ''tcp'', ''far''], [''25'', ''tcp'']]"
  let ?row = "['' 443 '', '' tcp'', ''HTTPS '']"
  from load_lookup_table_entries [of ?header "?pre @ ?row # []" CsvError "[]"]
  obtain tbl where
    tbl: "load_lookup_table (Inr ?header # map Inr (?pre @ ?row # [])) = Inr tbl"
    and last: "\<forall>pre row post key tag.
        ?pre @ ?row # [] = pre @ row # post \<and> lookup_entry row = Some (key, tag) \<and>
        (\<forall>r\<in>set post. \<forall>t. lookup_entry r \<noteq> Some (key, t)) \<longrightarrow>
        tbl key = Some tag"
    by (elim exE conjE)
  have e: "lookup_entry ?row = Some ((443, ''tcp''), ''https'')"
    by code_simp
  from last [rule_format, of ?pre ?row "[]" "(443, ''tcp'')" "''https''"] e
  have "tbl (443, ''tcp'') = Some ''https''" by simp
  with tbl show ?thesis by (intro exI [of _ tbl]) simp
qed

text \<open>
  C6, counterexample to the claim as it is stated: the reader yields the header and a
  well-formed row for port 25, and raises \<open>csv.Error\<close> on the next data row (as it does
  on \<open>443,tcp,\<close> followed by a tag of more than 131072 characters). The iteration of
  line 47 is outside the \<open>try\<close> of lines 52 to 64: the loader raises and returns no
  table, so nothing is mapped for the row of port 25 either.
\<close>

theorem load_lookup_table_entries_counterexample:
  "load_lookup_table
     [Inr [''dstport'', ''protocol'', ''tag''], Inr [''25'', ''tcp'', ''mail''], Inl CsvError]
     = Inl CsvError \<and>
   lookup_entry [''25'', ''tcp'', ''mail''] = Some ((25, ''tcp''), ''mail'')"
proof -
  have "lookup_entry [''25'', ''tcp'', ''mail''] = Some ((25, ''tcp''), ''mail'')"
    by code_simp
  then show ?thesis by (simp add: load_lookup_table_def)
qed

text \<open>
  C7 (amended). Whenever \<open>build_port_protocol_dict\<close> returns, its table is the
  dictionary it was called with and the entries of the file: for every data row whose
  trimmed \<open>Decimal\<close> is a plain non-negative integer of at most 4300 digits and that no
  later row yielding the same integer follows, the table maps the integer to the
  lower-cased trimmed \<open>Keyword\<close>; every entry of the table was in the dictionary before
  or is the entry of a row whose \<open>Decimal\<close> has no hyphen and parses as an integer; and
  a row whose \<open>Decimal\<close> has a hyphen or does not parse as an integer produces no entry.
\<close>

theorem build_port_protocol_dict_entries:
  assumes "build_port_protocol_dict port_protocol_dict (Inr fieldnames # reader) = Inr tbl"
  shows "(\<forall>pre row post d k.
        reader = pre @ Inr row # post \<and> row \<noteq> [] \<and>
        dict_row fieldnames row ''Decimal'' = Some (Some d) \<and>
        dict_row fieldnames row ''Keyword'' = Some (Some k) \<and>
        plain_number (py_strip d) \<and> length (py_strip d) \<le> max_str_digits \<and>
        (\<forall>r v. Inr r \<in> set post \<and> r \<noteq> [] \<longrightarrow>
           protocol_entry (dict_row fieldnames r) \<noteq> Some (decimal_value (py_strip d), v)) \<longrightarrow>
        tbl (decimal_value (py_strip d)) = Some (py_lower (py_strip k))) \<and>
     (\<forall>key v. tbl key = Some v \<longrightarrow>
        port_protocol_dict key = Some v \<or>
        (\<exists>row. Inr row \<in> set reader \<and> row \<noteq> [] \<and>
           protocol_entry (dict_row fieldnames row) = Some (key, v))) \<and>
     (\<forall>m m' row d.
        row ''Decimal'' = Some (Some d) \<and>
        (CHR ''-'' \<in> set (py_strip d) \<or> py_int (py_strip d) = None) \<and>
        protocol_row m row = Inr m' \<longrightarrow> m' = m)"
proof -
  let ?data = "\<lambda>rs. map (dict_row fieldnames) (filter (\<lambda>r. r \<noteq> []) rs)"
  from build_returned [OF assms] obtain rows where
    reader: "reader = map Inr rows"
    and tbl: "tbl = foldl (put_entry protocol_entry) port_protocol_dict (?data rows)"
    by blast
  have 1: "tbl (decimal_value (py_strip d)) = Some (py_lower (py_strip k))"
    if split: "reader = pre @ Inr row # post" and ne: "row \<noteq> []"
      and d: "dict_row fieldnames row ''Decimal'' = Some (Some d)"
      and k: "dict_row fieldnames row ''Keyword'' = Some (Some k)"
      and plain: "plain_number (py_strip d)" "length (py_strip d) \<le> max_str_digits"
      and later: "\<forall>r v. Inr r \<in> set post \<and> r \<noteq> [] \<longrightarrow>
           protocol_entry (dict_row fieldnames r) \<noteq> Some (decimal_value (py_strip d), v)"
    for pre row post d k
  proof -
    from split reader have "map Inr rows = pre @ Inr row # post" by simp
    then obtain rs1 rs2 where
      rows: "rows = rs1 @ row # rs2" and pre: "pre = map Inr rs1" and post: "post = map Inr rs2"
      by (auto simp add: map_eq_append_conv map_eq_Cons_conv)
    from rows ne have "?data rows = ?data rs1 @ dict_row fieldnames row # ?data rs2"
      by simp
    moreover from later post have "\<forall>r'\<in>set (?data rs2). \<forall>v'.
        protocol_entry r' \<noteq> Some (decimal_value (py_strip d), v')"
      by auto
    ultimately show ?thesis
      unfolding tbl using protocol_entry_plain [OF d k plain]
      by (simp only: foldl_put_entry_last)
  qed
  have 2: "port_protocol_dict key = Some v \<or>
      (\<exists>row. Inr row \<in> set reader \<and> row \<noteq> [] \<and>
         protocol_entry (dict_row fieldnames row) = Some (key, v))"
    if "tbl key = Some v" for key v
    using foldl_put_entry_origin [OF that [unfolded tbl]] reader by auto
  have 3: "m' = m"
    if "row ''Decimal'' = Some (Some d) \<and>
        (CHR ''-'' \<in> set (py_strip d) \<or> py_int (py_strip d) = None) \<and>
        protocol_row m row = Inr m'" for m m' row d
  proof -
    from that protocol_row_cells [of m row m'] have "has_cells row" by simp
    with that protocol_row_entry [of row m]
    have "m' = put_entry protocol_entry m row" by simp
    moreover from that have "protocol_entry row = None"
      by (auto simp add: protocol_entry_def split: option.splits)
    ultimately show ?thesis by (simp add: put_entry_def)
  qed
  from 1 2 3 show ?thesis by blast
qed

text \<open>
  C7, witness: a file with an empty line and a range row; the loader returns, the row
  for 17 is the last one and its keyword, trimmed and lower-cased, is in the table.
\<close>

theorem build_port_protocol_dict_entries_witness:
  "\<exists>tbl. build_port_protocol_dict Map.empty
       [Inr [''Decimal'', ''Keyword'', ''Protocol''], Inr [''6'', ''TCP'', ''Transmission Control''],
        Inr [], Inr [''146-252'', [], ''Unassigned''],
        Inr ['' 17 '', '' UDP'', ''User Datagram'']] = Inr tbl \<and>
     tbl 17 = Some ''udp''"
proof -
  let ?names = "[''Decimal'', ''Keyword'', ''Protocol'']"
  let ?pre = "[Inr [''6'', ''TCP'', ''Transmission Control''], Inr [],
        Inr [''146-252'', [], ''Unassigned'']] :: csv_reader"
  let ?row = "['' 17 '', '' UDP'', ''User Datagram'']"
  have "(case build_port_protocol_dict Map.empty (Inr ?names # ?pre @ Inr ?row # []) of
          Inl e \<Rightarrow> False | Inr tbl \<Rightarrow> True)"
    by code_simp
  then obtain tbl where
    tbl: "build_port_protocol_dict Map.empty (Inr ?names # ?pre @ Inr ?row # []) = Inr tbl"
    by (cases "build_port_protocol_dict Map.empty (Inr ?names # ?pre @ Inr ?row # [])") simp_all
  from build_port_protocol_dict_entries [OF tbl]
  have last: "\<forall>pre row post d k.
        ?pre @ Inr ?row # [] = pre @ Inr row # post \<and> row \<noteq> [] \<and>
        dict_row ?names row ''Decimal'' = Some (Some d) \<and>
        dict_row ?names row ''Keyword'' = Some (Some k) \<and>
        plain_number (py_strip d) \<and> length (py_strip d) \<le> max_str_digits \<and>
        (\<forall>r v. Inr r \<in> set post \<and> r \<noteq> [] \<longrightarrow>
           protocol_entry (dict_row ?names r) \<noteq> Some (decimal_value (py_strip d), v)) \<longrightarrow>
        tbl (decimal_value (py_strip d)) = Some (py_lower (py_strip k))"
    by (elim conjE)
  have d: "dict_row ?names ?row ''Decimal'' = Some (Some '' 17 '')"
    and k: "dict_row ?names ?row ''Keyword'' = Some (Some '' UDP'')"
    and p: "plain_number (py_strip '' 17 '')"
    and n: "length (py_strip '' 17 '') \<le> max_str_digits"
    and v: "decimal_value (py_strip '' 17 '') = 17"
    and l: "py_lower (py_strip '' UDP'') = ''udp''"
    by code_simp+
  from last [rule_format, of ?pre ?row "[]" "'' 17 ''" "'' UDP''"] d k p n
  have "tbl (decimal_value (py_strip '' 17 '')) = Some (py_lower (py_strip '' UDP''))"
    by simp
  with v l have "tbl 17 = Some ''udp''" by simp
  with tbl show ?thesis by (intro exI [of _ tbl]) simp
qed

text \<open>
  C7, counterexample to the claim as it is stated: the first data row has the plain
  integer 6 in \<open>Decimal\<close> and the keyword TCP, and the table does not map 6 to
  \<open>tcp\<close>: the later row for 6 has overwritten it (line 33 assigns, whatever the
  dictionary held).
\<close>

theorem build_port_protocol_dict_entries_counterexample:
  "(case build_port_protocol_dict Map.empty
          [Inr [''Decimal'', ''Keyword''], Inr [''6'', ''TCP''], Inr [''6'', ''UDP'']] of
      Inl e \<Rightarrow> None | Inr tbl \<Rightarrow> tbl 6) = Some ''udp'' \<and>
   plain_number (py_strip ''6'') \<and> py_int (py_strip ''6'') = Some 6 \<and>
   py_lower (py_strip ''TCP'') = ''tcp''"
  by code_simp

text \<open>
  A row that leaves the \<open>Keyword\<close> column without a cell, here a range row without a
  comma: \<open>csv.DictReader\<close> fills the column with \<open>None\<close>, and \<open>row['Keyword'].strip()\<close>
  at line 25, which no \<open>try\<close> encloses, raises \<open>AttributeError\<close> out of the loader.
  \<open>load_lookup_table\<close> tests the number of columns of a row first (line 48); this
  loader has no such test.
\<close>

lemma short_row_raises:
  "(case build_port_protocol_dict Map.empty
          [Inr [''Decimal'', ''Keyword''], Inr [''6'', ''TCP''], Inr [''146-252'']] of
      Inl e \<Rightarrow> Some e | Inr tbl \<Rightarrow> None) = Some AttributeError"
  by code_simp

text \<open>
  C10. Every key of the table that \<open>build_port_protocol_dict\<close> returns, called as
  \<open>main\<close> calls it (on the empty module-level dictionary), is a non-negative integer.
  A literal that \<open>int\<close> reads as a negative number contains a hyphen, and a row whose
  trimmed \<open>Decimal\<close> contains a hyphen leaves the table as it is: the test of line 27
  comes before the conversion of line 31.
\<close>

theorem protocol_table_keys_nonnegative:
  "(build_port_protocol_dict Map.empty csv_rows = Inr tbl \<and> tbl key = Some v \<longrightarrow> 0 \<le> key) \<and>
   (py_int decimal = Some n \<and> n < 0 \<longrightarrow> CHR ''-'' \<in> set decimal) \<and>
   (row ''Decimal'' = Some (Some d) \<and> row ''Keyword'' = Some (Some k) \<and>
    CHR ''-'' \<in> set (py_strip d) \<longrightarrow> protocol_row tbl row = Inr tbl)"
proof (intro conjI impI)
  assume "build_port_protocol_dict Map.empty csv_rows = Inr tbl \<and> tbl key = Some v"
  then show "0 \<le> key" using build_inv [of Map.empty csv_rows tbl key v] by simp
next
  assume "py_int decimal = Some n \<and> n < 0"
  then show "CHR ''-'' \<in> set decimal" using py_int_nonneg [of decimal n] by fastforce
next
  assume "row ''Decimal'' = Some (Some d) \<and> row ''Keyword'' = Some (Some k) \<and>
    CHR ''-'' \<in> set (py_strip d)"
  then show "protocol_row tbl row = Inr tbl" by (simp add: protocol_row_def)
qed

text \<open>
  C10, witness: the file has a row for 6 and a row for \<open>-1\<close>; the table has the key 6
  and no key \<open>-1\<close>.
\<close>

theorem protocol_table_keys_nonnegative_witness:
  "\<exists>tbl. build_port_protocol_dict Map.empty
       [Inr [''Decimal'', ''Keyword''], Inr [''6'', ''TCP''], Inr [''-1'', ''NEG''],
        Inr [''146-252'', []]] = Inr tbl \<and>
     tbl 6 = Some ''tcp'' \<and> tbl (- 1) = None \<and>
     py_int ''-1'' = Some (- 1) \<and> CHR ''-'' \<in> set ''-1''"
proof -
  let ?csv = "[Inr [''Decimal'', ''Keyword''], Inr [''6'', ''TCP''], Inr [''-1'', ''NEG''],
        Inr [''146-252'', []]] :: csv_reader"
  have "(case build_port_protocol_dict Map.empty ?csv of Inl e \<Rightarrow> None | Inr tbl \<Rightarrow> tbl 6)
      = Some ''tcp''"
    by code_simp
  then obtain tbl where tbl: "build_port_protocol_dict Map.empty ?csv = Inr tbl"
    and six: "tbl 6 = Some ''tcp''"
    by (cases "build_port_protocol_dict Map.empty ?csv") simp_all
  have neg: "py_int ''-1'' = Some (- 1)" by code_simp
  have "tbl (- 1) = None"
  proof (cases "tbl (- 1)")
    case None
    then show ?thesis .
  next
    case (Some v)
    with tbl protocol_table_keys_nonnegative [of ?csv tbl "- 1" v]
    have "(0::int) \<le> - 1" by simp
    then show ?thesis by simp
  qed
  moreover from neg protocol_table_keys_nonnegative [of ?csv tbl 6 "''tcp''" "''-1''" "- 1"]
  have "CHR ''-'' \<in> set ''-1''" by simp
  ultimately show ?thesis using tbl six neg by (intro exI [of _ tbl]) simp
qed

section \<open>Claims about the flow record processor\<close>

text \<open>
  C2. Let the protocol table be the one \<open>build_port_protocol_dict\<close> returns, called on
  the empty module-level dictionary. For every line the validator accepts, the lines
  119 to 131 read a destination port and a protocol number from it, the protocol number
  is a key of the table, and the protocol name of line 122 is the value the table holds
  for it: the \<open>'unknown'\<close> of \<open>get\<close> is not taken, and \<open>lower\<close> changes nothing in a
  value the loader has lower-cased. The record is counted under that name.
\<close>

theorem protocol_always_known:
  assumes "build_port_protocol_dict Map.empty csv_rows = Inr ppd"
    and "accepted ip_ok ppd line"
  shows "\<exists>dstport pn name.
     py_int (py_split line ! 6) = Some dstport \<and> py_int (py_split line ! 7) = Some pn \<and>
     ppd pn = Some name \<and> protocol_name ppd pn = name \<and>
     process_line ip_ok ppd lookup_table agg line =
       Inr (count_record lookup_table agg dstport name)"
proof -
  from process_line_accepted [OF assms(2), of lookup_table agg]
  obtain dstport pn name where
    f: "py_int (py_split line ! 6) = Some dstport" "py_int (py_split line ! 7) = Some pn"
       "ppd pn = Some name"
    and step: "process_line ip_ok ppd lookup_table agg line =
       Inr (count_record lookup_table agg dstport (protocol_name ppd pn))"
    by blast
  from build_inv [OF assms(1) f(3)] have "py_lower name = name" by simp
  with f(3) have "protocol_name ppd pn = name" by (simp add: protocol_name_def)
  with f step show ?thesis by auto
qed

text \<open>
  C2, witness: the table made of the row \<open>6, TCP\<close>, and a valid line with protocol 6.
\<close>

theorem protocol_always_known_witness:
  "\<exists>ppd. build_port_protocol_dict Map.empty
       [Inr [''Decimal'', ''Keyword''], Inr [''6'', ''TCP'']] = Inr ppd \<and>
     accepted ipv4_ok ppd
       ''2 123456789012 eni-1234abcd 10.0.0.1 10.0.0.2 1024 443 6 10 500 100 200 ACCEPT OK'' \<and>
     ppd 6 = Some ''tcp'' \<and> protocol_name ppd 6 = ''tcp''"
proof -
  let ?line = "''2 123456789012 eni-1234abcd 10.0.0.1 10.0.0.2 1024 443 6 10 500 100 200 ACCEPT OK''"
  let ?row = "dict_row [''Decimal'', ''Keyword''] [''6'', ''TCP'']"
  have "has_cells ?row" by code_simp
  moreover have "protocol_entry ?row = Some (6, ''tcp'')" by code_simp
  ultimately have "protocol_row Map.empty ?row = Inr [6 \<mapsto> ''tcp'']"
    by (simp add: protocol_row_entry put_entry_def)
  then have build: "build_port_protocol_dict Map.empty
      [Inr [''Decimal'', ''Keyword''], Inr [''6'', ''TCP'']] = Inr [6 \<mapsto> ''tcp'']"
    by (simp add: build_port_protocol_dict_def)
  have acc: "accepted ipv4_ok [6 \<mapsto> ''tcp''] ?line"
    by code_simp
  have pn: "py_int (py_split ?line ! 7) = Some 6"
    by code_simp
  from protocol_always_known [OF build acc, of Map.empty "(Map.empty, Map.empty)"]
  have "[6 \<mapsto> ''tcp''] 6 = Some ''tcp'' \<and> protocol_name [6 \<mapsto> ''tcp''] 6 = ''tcp''"
    unfolding pn by auto
  with build acc show ?thesis by (intro exI [of _ "[6 \<mapsto> ''tcp'']"]) simp
qed

text \<open>
  C8. For every line the validator accepts, the lines 119 to 122 read its destination
  port and protocol number without raising. If the pair of the port and the protocol
  name is not a key of the lookup table, the turn of the loop returns normally, the
  count of \<open>"untagged"\<close> is one more than before (1 if there was none), and so is the count
  of the pair.
\<close>

theorem untagged_fallback:
  assumes "accepted ip_ok ppd line"
  shows "\<exists>dstport pn.
     py_int (py_split line ! 6) = Some dstport \<and> py_int (py_split line ! 7) = Some pn \<and>
     (lookup_table (dstport, protocol_name ppd pn) = None \<longrightarrow>
        process_line ip_ok ppd lookup_table (tag_counts, port_protocol_counts) line =
          Inr (tag_counts(''untagged'' \<mapsto>
                 (case tag_counts ''untagged'' of None \<Rightarrow> 0 | Some c \<Rightarrow> c) + 1),
               port_protocol_counts((dstport, protocol_name ppd pn) \<mapsto>
                 (case port_protocol_counts (dstport, protocol_name ppd pn) of
                    None \<Rightarrow> 0 | Some c \<Rightarrow> c) + 1)))"
proof -
  from process_line_accepted [OF assms, of lookup_table "(tag_counts, port_protocol_counts)"]
  obtain dstport pn where
    f: "py_int (py_split line ! 6) = Some dstport" "py_int (py_split line ! 7) = Some pn"
    and step: "process_line ip_ok ppd lookup_table (tag_counts, port_protocol_counts) line =
       Inr (count_record lookup_table (tag_counts, port_protocol_counts) dstport
              (protocol_name ppd pn))"
    by blast
  have "count_record lookup_table (tag_counts, port_protocol_counts) dstport
          (protocol_name ppd pn) =
        (tag_counts(''untagged'' \<mapsto>
                 (case tag_counts ''untagged'' of None \<Rightarrow> 0 | Some c \<Rightarrow> c) + 1),
               port_protocol_counts((dstport, protocol_name ppd pn) \<mapsto>
                 (case port_protocol_counts (dstport, protocol_name ppd pn) of
                    None \<Rightarrow> 0 | Some c \<Rightarrow> c) + 1))"
    if "lookup_table (dstport, protocol_name ppd pn) = None"
    using that by (cases "tag_counts ''untagged''") (simp_all add: count_record_def Let_def)
  with f step show ?thesis by auto
qed

text \<open>
  C8, witness: a valid line for port 8080, which the lookup table does not have,
  counted in empty aggregates.
\<close>

theorem untagged_fallback_witness:
  "process_line ipv4_ok [6 \<mapsto> ''tcp''] [(443, ''tcp'') \<mapsto> ''web''] (Map.empty, Map.empty)
     ''2 123456789012 eni-1234abcd 10.0.0.1 10.0.0.2 1024 8080 6 1 40 100 100 REJECT OK''
   = Inr ([''untagged'' \<mapsto> 1], [(8080, ''tcp'') \<mapsto> 1])"
proof -
  let ?line = "''2 123456789012 eni-1234abcd 10.0.0.1 10.0.0.2 1024 8080 6 1 40 100 100 REJECT OK''"
  have acc: "accepted ipv4_ok [6 \<mapsto> ''tcp''] ?line"
    by code_simp
  have port: "py_int (py_split ?line ! 6) = Some 8080"
    and pn: "py_int (py_split ?line ! 7) = Some 6"
    and name: "protocol_name [6 \<mapsto> ''tcp''] 6 = ''tcp''"
    by code_simp+
  from untagged_fallback [OF acc, of "[(443, ''tcp'') \<mapsto> ''web'']" Map.empty Map.empty]
  show ?thesis
    unfolding port pn by (simp add: name)
qed

text \<open>
  C9. \<open>process_flow_logs\<close> returns its two aggregates for every list of lines. Both are
  finite, the counts of each sum to the number of lines the validator accepted, and
  every count in either is positive.
\<close>

theorem process_flow_logs_totals:
  "\<exists>tag_counts port_protocol_counts.
     process_flow_logs ip_ok ppd lookup_table lines = Inr (tag_counts, port_protocol_counts) \<and>
     finite (dom tag_counts) \<and> finite (dom port_protocol_counts) \<and>
     sum_counts tag_counts = int (length (filter (accepted ip_ok ppd) lines)) \<and>
     sum_counts port_protocol_counts = int (length (filter (accepted ip_ok ppd) lines)) \<and>
     (\<forall>tag c. tag_counts tag = Some c \<longrightarrow> 0 < c) \<and>
     (\<forall>key c. port_protocol_counts key = Some c \<longrightarrow> 0 < c)"
proof -
  have "counted (Map.empty, Map.empty) 0"
    by (simp add: counted_def sum_counts_def)
  from process_lines_counted [OF this, of ip_ok ppd lookup_table lines]
  obtain agg where agg: "process_lines ip_ok ppd lookup_table (Map.empty, Map.empty) lines = Inr agg"
    "counted agg (int (length (filter (accepted ip_ok ppd) lines)))"
    by auto
  obtain tc ppc where "agg = (tc, ppc)" by (cases agg)
  with agg show ?thesis
    by (simp add: process_flow_logs_def counted_def)
qed

text \<open>
  C9, witness: a file of three lines of which two are valid.
\<close>

theorem process_flow_logs_totals_witness:
  "\<exists>tag_counts port_protocol_counts.
     process_flow_logs ipv4_ok [6 \<mapsto> ''tcp''] [(443, ''tcp'') \<mapsto> ''web'']
       [''2 123456789012 eni-1234abcd 10.0.0.1 10.0.0.2 1024 443 6 10 500 100 200 ACCEPT OK'',
        ''not a flow record'',
        ''2 123456789012 eni-1234abcd 10.0.0.1 10.0.0.2 1024 8080 6 1 40 100 100 REJECT OK'']
       = Inr (tag_counts, port_protocol_counts) \<and>
     sum_counts tag_counts = 2 \<and> sum_counts port_protocol_counts = 2"
proof -
  let ?lines = "[''2 123456789012 eni-1234abcd 10.0.0.1 10.0.0.2 1024 443 6 10 500 100 200 ACCEPT OK'',
        ''not a flow record'',
        ''2 123456789012 eni-1234abcd 10.0.0.1 10.0.0.2 1024 8080 6 1 40 100 100 REJECT OK'']"
  have n: "int (length (filter (accepted ipv4_ok [6 \<mapsto> ''tcp'']) ?lines)) = 2"
    by code_simp
  from process_flow_logs_totals
    [of ipv4_ok "[6 \<mapsto> ''tcp'']" "[(443, ''tcp'') \<mapsto> ''web'']" ?lines]
  obtain tc ppc where
    "process_flow_logs ipv4_ok [6 \<mapsto> ''tcp''] [(443, ''tcp'') \<mapsto> ''web''] ?lines = Inr (tc, ppc)"
    "sum_counts tc = int (length (filter (accepted ipv4_ok [6 \<mapsto> ''tcp'']) ?lines))"
    "sum_counts ppc = int (length (filter (accepted ipv4_ok [6 \<mapsto> ''tcp'']) ?lines))"
    by (elim exE conjE)
  then show ?thesis unfolding n by (intro exI [of _ tc] exI [of _ ppc]) simp
qed

end
